theory Spec2Isabelle
  imports Complex_Main "HOL-Library.Sublist"
begin

section \<open>Morphology skeleton: sections and arbors\<close>

text \<open>
  An arbor is a finite tree of \<open>Section\<close> objects.  Every section owns the ordered list of
  its samples, its two dendrogram coordinates (\<open>None\<close> until they are computed) and the
  ordered list of its children.  A section object is identified by its position in the
  arbor: the list of child indices that leads from the arbor root to it.  The \<open>parent\<close>
  attribute of the section at position \<open>q @ [i]\<close> is the section at position \<open>q\<close>, and the
  arbor root has no parent.  Coordinates are Python numbers, taken here as reals.
\<close>

type_synonym sample = "(real \<times> real \<times> real) \<times> real"

datatype "section" = Section (samples: "sample list") (dendrogram_x: "real option")
  (dendrogram_y: "real option") (children: "section list")

type_synonym path = "nat list"

datatype error = AttributeError | KeyError | OSError | ModuleNotFoundError string
  | OtherException string

lemma size_child: "c \<in> set (children r) \<Longrightarrow> size c < size r"
proof -
  assume "c \<in> set (children r)"
  then have "size c \<le> size_list size (children r)"
    by (rule size_list_estimation') simp
  then show ?thesis by (cases r) simp
qed

lemma size_enumerate_child:
  "(i, c) \<in> set (enumerate n cs) \<Longrightarrow> size c < Suc (size_list size cs)"
proof -
  assume "(i, c) \<in> set (enumerate n cs)"
  then have "c \<in> set cs"
    by (auto simp: enumerate_eq_zip dest: set_zip_rightD)
  then have "size c \<le> size_list size cs"
    by (rule size_list_estimation') simp
  then show ?thesis by simp
qed

text \<open>
  Modelled from the spec: \<open>Section.is_leaf\<close> is a method of the skeleton's section class,
  which is defined in another module.  A leaf is a section of the tree of sections that has
  no children.
\<close>

definition is_leaf :: "section \<Rightarrow> bool" where
  "is_leaf s = (children s = [])"

text \<open>Dereferencing a position of the arbor; \<open>None\<close> when no section is there.\<close>

fun section_at :: "section \<Rightarrow> path \<Rightarrow> section option" where
  "section_at t [] = Some t"
| "section_at t (i # p) =
     (if i < length (children t) then section_at (children t ! i) p else None)"

text \<open>The \<open>parent\<close> attribute: \<open>None\<close> for the arbor root.\<close>

definition parent :: "path \<Rightarrow> path option" where
  "parent p = (if p = [] then None else Some (butlast p))"

text \<open>Applying a mutation to the section object found at a position.\<close>

fun update_section_at :: "section \<Rightarrow> path \<Rightarrow> (section \<Rightarrow> section) \<Rightarrow> section" where
  "update_section_at t [] f = f t"
| "update_section_at (Section sm x y cs) (i # p) f =
     Section sm x y (if i < length cs then cs[i := update_section_at (cs ! i) p f] else cs)"

text \<open>The assignment \<open>section.dendrogram_x = v\<close> for the section at a position.\<close>

definition set_dendrogram_x :: "section \<Rightarrow> path \<Rightarrow> real \<Rightarrow> section" where
  "set_dendrogram_x t p v =
     update_section_at t p (\<lambda>s. Section (samples s) (Some v) (dendrogram_y s) (children s))"

section \<open>Dendrogram layout\<close>

text \<open>
  \<open>get_subtree_leaves\<close> appends the section to \<open>leaves\<close> when it is a leaf and then
  visits the children in order.  The list collects references to sections, here positions;
  \<open>p\<close> is the position of the section that is visited.
\<close>

function get_subtree_leaves :: "path \<Rightarrow> section \<Rightarrow> path list \<Rightarrow> path list" where
  "get_subtree_leaves p (Section sm x y cs) leaves =
     fold (\<lambda>(i, child) leaves. get_subtree_leaves (p @ [i]) child leaves) (enumerate 0 cs)
       (if is_leaf (Section sm x y cs) then leaves @ [p] else leaves)"
  by pat_completeness auto
termination
  by (relation "measure (\<lambda>(p, s, leaves). size s)") (auto simp: size_enumerate_child)

definition get_arbor_leaves :: "section option \<Rightarrow> path list" where
  "get_arbor_leaves arbor =
     (let leaves = [] in
      case arbor of None \<Rightarrow> leaves | Some a \<Rightarrow> get_subtree_leaves [] a leaves)"

text \<open>
  The loop over \<open>section.parent.children\<close> that adds up the X-coordinates; \<open>None\<close> is the
  early \<open>return\<close> taken at the first child whose coordinate is not computed.
\<close>

fun accumulate_children_x :: "section list \<Rightarrow> real \<Rightarrow> real option" where
  "accumulate_children_x [] x = Some x"
| "accumulate_children_x (child # rest) x =
     (case dendrogram_x child of
        None \<Rightarrow> None
      | Some v \<Rightarrow> accumulate_children_x rest (x + v))"

text \<open>
  \<open>compute_dendrogram_x_coordinates_for_parents\<close> on the arbor \<open>t\<close>; its argument is a
  reference to a section of \<open>t\<close> or \<open>None\<close>.  A position at which \<open>t\<close> has no section stands
  for no object and leaves the arbor as it is.  The parent of a section has that section
  among its children, so the division by \<open>len(section.parent.children)\<close> is never by zero.
\<close>

function compute_dendrogram_x_coordinates_for_parents ::
  "section \<Rightarrow> path option \<Rightarrow> section" where
  "compute_dendrogram_x_coordinates_for_parents t sec =
     (case sec of
        None \<Rightarrow> t
      | Some p \<Rightarrow>
          (case section_at t p of
             None \<Rightarrow> t
           | Some s \<Rightarrow>
               (case parent p of
                  None \<Rightarrow> compute_dendrogram_x_coordinates_for_parents t None
                | Some q \<Rightarrow>
                    (case section_at t q of
                       None \<Rightarrow> t
                     | Some section_parent \<Rightarrow>
                         (case accumulate_children_x (children section_parent) 0 of
                            None \<Rightarrow> t
                          | Some x \<Rightarrow>
                              compute_dendrogram_x_coordinates_for_parents
                                (set_dendrogram_x t q
                                   (x / real (length (children section_parent))))
                                (Some q))))))"
  by pat_completeness auto
termination
  by (relation "measure (\<lambda>(t, sec). case sec of None \<Rightarrow> 0 | Some p \<Rightarrow> Suc (length p))")
    (auto simp: parent_def split: if_splits)

text \<open>
  \<open>compute_dendrogram_y_coordinates_for_children\<close> on the section object found at
  position \<open>p\<close>.  \<open>Section.compute_path_length\<close> is defined in another module; it is a
  parameter that gives the path length of the section at a position.
\<close>

function compute_dendrogram_y_coordinates_for_children ::
  "(path \<Rightarrow> real) \<Rightarrow> path \<Rightarrow> section \<Rightarrow> section" where
  "compute_dendrogram_y_coordinates_for_children compute_path_length p (Section sm x y cs) =
     Section sm x (Some (compute_path_length p))
       (map (\<lambda>(i, child).
               compute_dendrogram_y_coordinates_for_children compute_path_length (p @ [i]) child)
          (enumerate 0 cs))"
  by pat_completeness auto
termination
  by (relation "measure (\<lambda>(f, p, s). size s)") (auto simp: size_enumerate_child)

text \<open>
  \<open>compute_arbor_dendrogram\<close>.  For the arbor \<open>None\<close> there are no leaves, both loops do
  nothing, and the call for the Y-coordinates raises \<open>AttributeError\<close> on \<open>None\<close>.
\<close>

definition compute_arbor_dendrogram ::
  "(path \<Rightarrow> real) \<Rightarrow> section option \<Rightarrow> real \<Rightarrow> error + section" where
  "compute_arbor_dendrogram compute_path_length arbor delta =
     (let leaves = get_arbor_leaves arbor in
      case arbor of
        None \<Rightarrow> Inl AttributeError
      | Some a \<Rightarrow>
          let a = fold (\<lambda>(i, leaf) a. set_dendrogram_x a leaf (real i * delta))
                    (enumerate 0 leaves) a;
              a = fold (\<lambda>leaf a. compute_dendrogram_x_coordinates_for_parents a (Some leaf))
                    leaves a
          in Inr (compute_dendrogram_y_coordinates_for_children compute_path_length [] a))"

section \<open>Surface area of an arbor\<close>

text \<open>
  \<open>apply_operation_to_arbor\<close> and \<open>compute_sections_surface_areas_from_segments\<close> are
  defined in other modules; both are parameters.  The traversal receives the arbor, the
  operation and the list that collects the results, and returns that list as it has left it.
\<close>

definition compute_arbor_total_surface_area ::
  "('arbor \<Rightarrow> ('sec \<Rightarrow> real list \<Rightarrow> real list) \<Rightarrow> real list \<Rightarrow> real list) \<Rightarrow>
   ('sec \<Rightarrow> real list \<Rightarrow> real list) \<Rightarrow> 'arbor \<Rightarrow> real" where
  "compute_arbor_total_surface_area apply_operation_to_arbor
     compute_sections_surface_areas_from_segments arbor =
     (let sections_surface_areas =
            apply_operation_to_arbor arbor compute_sections_surface_areas_from_segments [];
          arbor_total_surface_area = 0
      in fold (\<lambda>surface_area arbor_total_surface_area. arbor_total_surface_area + surface_area)
           sections_surface_areas arbor_total_surface_area)"

text \<open>An arbor given as the list of its sections' areas, visited in order.\<close>

definition visit_in_order :: "real list \<Rightarrow> (real \<Rightarrow> real list \<Rightarrow> real list) \<Rightarrow> real list \<Rightarrow> real list" where
  "visit_in_order arbor operation collected = fold operation arbor collected"

definition collect_area :: "real \<Rightarrow> real list \<Rightarrow> real list" where
  "collect_area area collected = collected @ [area]"

section \<open>Poly-lines of the disconnected sections builder\<close>

text \<open>
  A poly-line as \<open>DisconnectedSectionsBuilder.construct_tree_poly_lines\<close> builds it: a name,
  the samples, a material index.
\<close>

datatype 'p poly_line = PolyLine (name: string) (poly_line_samples: 'p) (material_index: int)

text \<open>The conversion \<open>%d\<close> of the name \<open>'%s_%d' % (prefix, branching_order)\<close>.\<close>

fun decimal :: "nat \<Rightarrow> string" where
  "decimal n = (if 10 \<le> n then decimal (n div 10) else []) @ [char_of (n mod 10 + 48)]"

declare decimal.simps [simp del]

definition format_d :: "int \<Rightarrow> string" where
  "format_d i = (if 0 \<le> i then decimal (nat i) else CHR ''-'' # decimal (nat (- i)))"

text \<open>
  \<open>construct_tree_poly_lines\<close> returns the list \<open>poly_lines_list\<close> as the call has left it.
  The constants \<open>GRAY_MATERIAL_INDEX\<close> and \<open>BASAL_DENDRITES_PREFIX\<close> and the function
  \<open>get_section_poly_line\<close> are defined in other modules and are parameters.  The
  recursive calls pass no \<open>prefix\<close>, so the children are named with the default one.
\<close>

function construct_tree_poly_lines ::
  "int \<Rightarrow> string \<Rightarrow> (section \<Rightarrow> 'p) \<Rightarrow> section option \<Rightarrow> 'p poly_line list \<Rightarrow> int \<Rightarrow> int \<Rightarrow>
   string \<Rightarrow> int \<Rightarrow> bool \<Rightarrow> 'p poly_line list" where
  "construct_tree_poly_lines GRAY_MATERIAL_INDEX BASAL_DENDRITES_PREFIX get_section_poly_line
     root_section poly_lines_list branching_order max_branching_order name_prefix
     material_start_index highlight =
   (case root_section of
      None \<Rightarrow> poly_lines_list
    | Some r \<Rightarrow>
        let branching_order = branching_order + 1 in
        if branching_order > max_branching_order then poly_lines_list
        else
          let material_index =
                (if highlight then material_start_index + (branching_order mod 2)
                 else GRAY_MATERIAL_INDEX);
              poly_line = PolyLine (name_prefix @ ''_'' @ format_d branching_order)
                            (get_section_poly_line r) material_index;
              poly_lines_list = poly_lines_list @ [poly_line]
          in fold (\<lambda>child acc.
                     construct_tree_poly_lines GRAY_MATERIAL_INDEX BASAL_DENDRITES_PREFIX
                       get_section_poly_line (Some child) acc branching_order max_branching_order
                       BASAL_DENDRITES_PREFIX material_start_index highlight)
               (children r) poly_lines_list)"
  by pat_completeness auto
termination
  by (relation "measure (\<lambda>(g, b, f, r, l, bo, m, p, ms, h).
        case r of None \<Rightarrow> 0 | Some s \<Rightarrow> size s)") (auto simp: size_child)

declare construct_tree_poly_lines.simps [simp del]

text \<open>
  The default value of \<open>poly_lines_list\<close> is one list object, created when the function is
  defined and kept by the function.  A call that omits the argument works on that object.
\<close>

record 'p function_defaults =
  poly_lines_list_default :: "'p poly_line list"

definition defaults_at_definition :: "'p function_defaults" where
  "defaults_at_definition = \<lparr>poly_lines_list_default = []\<rparr>"

definition construct_tree_poly_lines_default_list ::
  "int \<Rightarrow> string \<Rightarrow> (section \<Rightarrow> 'p) \<Rightarrow> section option \<Rightarrow> int \<Rightarrow> int \<Rightarrow> string \<Rightarrow> int \<Rightarrow> bool \<Rightarrow>
   'p function_defaults \<Rightarrow> 'p function_defaults" where
  "construct_tree_poly_lines_default_list GRAY_MATERIAL_INDEX BASAL_DENDRITES_PREFIX
     get_section_poly_line root_section branching_order max_branching_order name_prefix
     material_start_index highlight defaults =
   defaults\<lparr>poly_lines_list_default :=
     construct_tree_poly_lines GRAY_MATERIAL_INDEX BASAL_DENDRITES_PREFIX get_section_poly_line
       root_section (poly_lines_list_default defaults) branching_order max_branching_order
       name_prefix material_start_index highlight\<rparr>"

text \<open>
  The sections of a tree in the order of a depth-first walk, parents before children, each
  with its branching order; the root of the walk has the order that is given.
\<close>

fun sections_with_order :: "int \<Rightarrow> section \<Rightarrow> (section \<times> int) list" where
  "sections_with_order b (Section sm x y cs) =
     (Section sm x y cs, b) # concat (map (sections_with_order (b + 1)) cs)"

definition within_order :: "int \<Rightarrow> section \<times> int \<Rightarrow> bool" where
  "within_order m so = (snd so \<le> m)"

text \<open>The poly-line of one section at one branching order.\<close>

definition make_poly_line ::
  "int \<Rightarrow> (section \<Rightarrow> 'p) \<Rightarrow> int \<Rightarrow> bool \<Rightarrow> string \<Rightarrow> section \<times> int \<Rightarrow> 'p poly_line" where
  "make_poly_line G g msi h p so =
     PolyLine (p @ ''_'' @ format_d (snd so)) (g (fst so))
       (if h then msi + (snd so mod 2) else G)"

definition expected_poly_lines ::
  "int \<Rightarrow> string \<Rightarrow> (section \<Rightarrow> 'p) \<Rightarrow> int \<Rightarrow> int \<Rightarrow> string \<Rightarrow> int \<Rightarrow> bool \<Rightarrow> section \<Rightarrow>
   'p poly_line list" where
  "expected_poly_lines G B g b m p msi h r =
     (case filter (within_order m) (sections_with_order b r) of
        [] \<Rightarrow> []
      | so # sos \<Rightarrow> make_poly_line G g msi h p so # map (make_poly_line G g msi h B) sos)"

section \<open>Notions used to state and prove the layout properties\<close>

declare compute_dendrogram_x_coordinates_for_parents.simps [simp del]

text \<open>Views of an arbor: which positions hold a section, and the fields found there.\<close>

definition valid :: "section \<Rightarrow> path \<Rightarrow> bool" where
  "valid t q = (section_at t q \<noteq> None)"

definition arity :: "section \<Rightarrow> path \<Rightarrow> nat" where
  "arity t q = (case section_at t q of None \<Rightarrow> 0 | Some s \<Rightarrow> length (children s))"

definition xat :: "section \<Rightarrow> path \<Rightarrow> real option" where
  "xat t q = (case section_at t q of None \<Rightarrow> None | Some s \<Rightarrow> dendrogram_x s)"

text \<open>
  The arithmetic mean of a list of coordinates that are all computed, and the mean of the
  coordinates of the children of the section at a position.  A section is \<open>good\<close> when all
  its children have a coordinate and its own coordinate is their mean.
\<close>

definition mean_of :: "real option list \<Rightarrow> real option" where
  "mean_of xs = (if None \<in> set xs then None else Some (sum_list (map the xs) / real (length xs)))"

definition mean_at :: "section \<Rightarrow> path \<Rightarrow> real option" where
  "mean_at t q =
     (case section_at t q of None \<Rightarrow> None | Some s \<Rightarrow> mean_of (map dendrogram_x (children s)))"

definition good :: "section \<Rightarrow> path \<Rightarrow> bool" where
  "good t q = (mean_at t q \<noteq> None \<and> xat t q = mean_at t q)"

text \<open>
  On the way up from \<open>p\<close> to its ancestor \<open>q\<close>, every section that hangs off the way has
  a coordinate.
\<close>

definition siblings_computed :: "section \<Rightarrow> path \<Rightarrow> path \<Rightarrow> bool" where
  "siblings_computed t p q =
     (\<forall>a k. prefix q a \<and> strict_prefix a p \<and> k < arity t a \<and> \<not> prefix (a @ [k]) p \<longrightarrow>
        xat t (a @ [k]) \<noteq> None)"

text \<open>
  The invariant of the loop that walks up from every leaf, \<open>R\<close> being the leaves that are
  still to come and \<open>t0\<close> the arbor before the loop: the tree keeps its shape, the leaves
  keep their coordinates, and every interior section with no leaf of \<open>R\<close> below it is good.
\<close>

definition loop_inv :: "section \<Rightarrow> path list \<Rightarrow> section \<Rightarrow> bool" where
  "loop_inv t0 R t =
     ((\<forall>q. valid t q = valid t0 q \<and> arity t q = arity t0 q) \<and>
      (\<forall>q. valid t0 q \<and> arity t0 q = 0 \<longrightarrow> xat t q = xat t0 q) \<and>
      (\<forall>q. valid t0 q \<and> 0 < arity t0 q \<and> (\<forall>l \<in> set R. \<not> prefix q l) \<longrightarrow> good t q))"

lemma size_nth_child: "i < length cs \<Longrightarrow> size (cs ! i) < Suc (size_list size cs)"
proof -
  assume "i < length cs"
  then have "cs ! i \<in> set cs" by simp
  then have "size (cs ! i) \<le> size_list size cs"
    by (rule size_list_estimation') simp
  then show ?thesis by simp
qed

text \<open>The positions of the leaves of a tree, from left to right.\<close>

function leaf_paths :: "section \<Rightarrow> path list" where
  "leaf_paths (Section sm x y cs) =
     (if cs = [] then [[]]
      else concat (map (\<lambda>i. map ((#) i) (leaf_paths (cs ! i))) [0..<length cs]))"
  by pat_completeness auto
termination
  by (relation "measure size") (auto simp: size_nth_child)

text \<open>The arbor after the two loops for the X-coordinates.\<close>

definition x_phase :: "section \<Rightarrow> real \<Rightarrow> section" where
  "x_phase a delta =
     fold (\<lambda>leaf a. compute_dendrogram_x_coordinates_for_parents a (Some leaf)) (leaf_paths a)
       (fold (\<lambda>(i, leaf) a. set_dendrogram_x a leaf (real i * delta))
          (enumerate 0 (leaf_paths a)) a)"

text \<open>A small arbor: a root with two leaves, the second with a stale X-coordinate.\<close>

definition example_arbor :: "section" where
  "example_arbor = Section [] None None [Section [] None None [], Section [] (Some 7) None []]"

definition example_path_length :: "path \<Rightarrow> real" where
  "example_path_length p = real (length p)"

section \<open>Plotting dependencies\<close>

text \<open>
  \<open>plot_per_arbor_result\<close> and \<open>plot_per_arbor_range\<close> start with the import of their plotting
  dependencies; this is the part modelled here, and what follows it draws the figure
  through the imported libraries.  The interpreter's environment tells for every package
  how an import of it ends: it is imported, it raises \<open>ModuleNotFoundError\<close>, or it fails with
  another exception.  \<open>nmv.utilities.pip_wheel\<close> is defined in another module; it is a
  parameter that changes the environment in any way it likes.  The trace records the
  imports and the calls of \<open>pip_wheel\<close> in the order they happen.
\<close>

datatype import_outcome = Imported | NotFound | Failed

datatype event = Import string import_outcome | PipWheel string

type_synonym environment = "string \<Rightarrow> import_outcome"

record world =
  environment :: environment
  trace :: "event list"

type_synonym statement = "world \<Rightarrow> error option \<times> world"

text \<open>The top-level package of a dotted module name.\<close>

definition package_of :: "string \<Rightarrow> string" where
  "package_of module_name = takeWhile (\<lambda>c. c \<noteq> CHR ''.'') module_name"

text \<open>A statement \<open>import module_name\<close> or \<open>from module_name import ...\<close>.\<close>

definition import_statement :: "string \<Rightarrow> statement" where
  "import_statement module_name w =
     (let outcome = environment w (package_of module_name);
          w = w\<lparr>trace := trace w @ [Import module_name outcome]\<rparr>
      in case outcome of
           Imported \<Rightarrow> (None, w)
         | NotFound \<Rightarrow> (Some (ModuleNotFoundError (package_of module_name)), w)
         | Failed \<Rightarrow> (Some (OtherException module_name), w))"

definition pip_wheel_call :: "(string \<Rightarrow> environment \<Rightarrow> environment) \<Rightarrow> string \<Rightarrow> statement" where
  "pip_wheel_call pip_wheel package_name w =
     (None, w\<lparr>environment := pip_wheel package_name (environment w),
              trace := trace w @ [PipWheel package_name]\<rparr>)"

text \<open>
  \<open>try: import package_name\<close> with the handler \<open>except ModuleNotFoundError\<close> that calls
  \<open>pip_wheel(package_name=...)\<close>; any other exception propagates.
\<close>

definition try_import_except_install ::
  "(string \<Rightarrow> environment \<Rightarrow> environment) \<Rightarrow> string \<Rightarrow> statement" where
  "try_import_except_install pip_wheel package_name w =
     (case import_statement package_name w of
        (Some (ModuleNotFoundError m), w') \<Rightarrow> pip_wheel_call pip_wheel package_name w'
      | r \<Rightarrow> r)"

text \<open>Statements in sequence: an exception of the first ends the function.\<close>

definition then_do :: "statement \<Rightarrow> statement \<Rightarrow> statement" where
  "then_do first_statement next_statement w =
     (case first_statement w of
        (None, w') \<Rightarrow> next_statement w'
      | (Some e, w') \<Rightarrow> (Some e, w'))"

definition plot_per_arbor_result :: "(string \<Rightarrow> environment \<Rightarrow> environment) \<Rightarrow> statement" where
  "plot_per_arbor_result pip_wheel =
     then_do (try_import_except_install pip_wheel ''numpy'')
    (then_do (try_import_except_install pip_wheel ''matplotlib'')
    (then_do (try_import_except_install pip_wheel ''seaborn'')
    (then_do (import_statement ''numpy'')
    (then_do (import_statement ''seaborn'')
    (then_do (import_statement ''matplotlib.pyplot'')
             (import_statement ''matplotlib''))))))"

definition plot_per_arbor_range :: "(string \<Rightarrow> environment \<Rightarrow> environment) \<Rightarrow> statement" where
  "plot_per_arbor_range pip_wheel =
     then_do (try_import_except_install pip_wheel ''numpy'')
    (then_do (try_import_except_install pip_wheel ''matplotlib'')
    (then_do (try_import_except_install pip_wheel ''seaborn'')
    (then_do (try_import_except_install pip_wheel ''pandas'')
    (then_do (import_statement ''numpy'')
    (then_do (import_statement ''seaborn'')
    (then_do (import_statement ''matplotlib'')
             (import_statement ''matplotlib'')))))))"


text \<open>The installation attempts and the import statements of a trace, in order.\<close>

fun installs :: "event list \<Rightarrow> string list" where
  "installs [] = []"
| "installs (PipWheel p # tr) = p # installs tr"
| "installs (Import n outcome # tr) = installs tr"

fun import_events :: "event list \<Rightarrow> (string \<times> import_outcome) list" where
  "import_events [] = []"
| "import_events (PipWheel p # tr) = import_events tr"
| "import_events (Import n outcome # tr) = (n, outcome) # import_events tr"

definition first_import :: "event list \<Rightarrow> string \<Rightarrow> import_outcome option" where
  "first_import tr = map_of (import_events tr)"

text \<open>A list of guarded imports, and a list of plain imports, in sequence.\<close>

fun install_missing :: "(string \<Rightarrow> environment \<Rightarrow> environment) \<Rightarrow> string list \<Rightarrow> statement" where
  "install_missing pip_wheel [] w = (None, w)"
| "install_missing pip_wheel (p # ps) w =
     then_do (try_import_except_install pip_wheel p) (install_missing pip_wheel ps) w"

fun import_all :: "string list \<Rightarrow> statement" where
  "import_all [] w = (None, w)"
| "import_all (n # ns) w = then_do (import_statement n) (import_all ns) w"

text \<open>
  An environment in which only pandas is missing, one in which the import of seaborn fails
  with another exception, an installer that achieves nothing, and an interpreter that has
  not traced anything yet.
\<close>

definition only_pandas_missing :: environment where
  "only_pandas_missing p = (if p = ''pandas'' then NotFound else Imported)"

definition seaborn_broken :: environment where
  "seaborn_broken p = (if p = ''seaborn'' then Failed else Imported)"

definition pip_wheel_without_effect :: "string \<Rightarrow> environment \<Rightarrow> environment" where
  "pip_wheel_without_effect package_name env = env"

definition fresh_interpreter :: "environment \<Rightarrow> world" where
  "fresh_interpreter env = \<lparr>environment = env, trace = []\<rparr>"


text \<open>
  What the imports of a function with the guarded packages \<open>guarded\<close>, followed by the plain
  imports \<open>retried\<close>, have done when the function raises \<open>exc\<close> or, for \<open>None\<close>, gets past
  them, in the world \<open>w'\<close>: no package has more than one installation attempt; the
  packages with an attempt are the guarded ones whose first import raised
  \<open>ModuleNotFoundError\<close>; a guarded import that failed otherwise has raised that exception;
  and past the imports, the imports made are the guarded ones then the plain ones, and all
  plain ones found their package.
\<close>

definition dependencies_handled :: "string list \<Rightarrow> string list \<Rightarrow> error option \<Rightarrow> world \<Rightarrow> bool" where
  "dependencies_handled guarded retried exc w' =
     (distinct (installs (trace w')) \<and>
      (\<forall>p. (p \<in> set (installs (trace w'))) =
             (p \<in> set guarded \<and> first_import (trace w') p = Some NotFound)) \<and>
      (\<forall>p \<in> set guarded. first_import (trace w') p = Some Failed \<longrightarrow>
             exc = Some (OtherException p)) \<and>
      (exc = None \<longrightarrow>
         map fst (import_events (trace w')) = guarded @ retried \<and>
         (\<forall>n \<in> set retried. environment w' (package_of n) = Imported)))"


section \<open>Vasculature loader\<close>

text \<open>
  An HDF5 file is a group; a group maps names to groups and datasets.  \<open>item\<close> is the
  indexing \<open>node[key]\<close> and \<open>dataset_value\<close> the attribute \<open>.value\<close> that reads a whole
  dataset.  \<open>h5py.File\<close> is a parameter: it takes the path and the mode and gives the root
  group of the file or raises.
\<close>

datatype 'v h5 = Dataset 'v | Group "(string \<times> 'v h5) list"

definition item :: "'v h5 \<Rightarrow> string \<Rightarrow> error + 'v h5" where
  "item node key =
     (case node of
        Group members \<Rightarrow> (case map_of members key of None \<Rightarrow> Inl KeyError | Some n \<Rightarrow> Inr n)
      | Dataset v \<Rightarrow> Inl (OtherException ''ValueError''))"

definition dataset_value :: "'v h5 \<Rightarrow> error + 'v" where
  "dataset_value node =
     (case node of Dataset v \<Rightarrow> Inr v | Group members \<Rightarrow> Inl AttributeError)"

text \<open>An exception ends the function.\<close>

definition and_then :: "error + 'a \<Rightarrow> ('a \<Rightarrow> error + 'b) \<Rightarrow> error + 'b" where
  "and_then r f = (case r of Inl e \<Rightarrow> Inl e | Inr x \<Rightarrow> f x)"

text \<open>The fields of a \<open>VasculatureLoader\<close>; a dataset is read as the list of its rows.\<close>

record 'a vasculature_loader =
  dataset :: string
  points_list :: "'a list"
  segments_list :: "'a list"
  sections_list :: "'a list"
  connections_list :: "'a list"

definition load_dataset_from_file ::
  "(string \<Rightarrow> string \<Rightarrow> error + 'a list h5) \<Rightarrow> 'a vasculature_loader \<Rightarrow>
   error + 'a vasculature_loader" where
  "load_dataset_from_file h5py_File self =
     and_then (h5py_File (dataset self) ''r'') (\<lambda>data.
     and_then (and_then (item data ''points'') dataset_value) (\<lambda>v.
     let self = self\<lparr>points_list := v\<rparr> in
     and_then (and_then (item data ''edges'') dataset_value) (\<lambda>v.
     let self = self\<lparr>segments_list := v\<rparr> in
     and_then (and_then (and_then (item data ''chains'') (\<lambda>g. item g ''structure'')) dataset_value) (\<lambda>v.
     let self = self\<lparr>sections_list := v\<rparr> in
     and_then (and_then (and_then (item data ''chains'') (\<lambda>g. item g ''connectivity'')) dataset_value) (\<lambda>v.
     let self = self\<lparr>connections_list := v\<rparr> in
     Inr self)))))"

definition VasculatureLoader ::
  "(string \<Rightarrow> string \<Rightarrow> error + 'a list h5) \<Rightarrow> string \<Rightarrow> error + 'a vasculature_loader" where
  "VasculatureLoader h5py_File dataset_path =
     (let self = \<lparr>dataset = dataset_path, points_list = [], segments_list = [],
                  sections_list = [], connections_list = []\<rparr>
      in load_dataset_from_file h5py_File self)"

text \<open>A file system with one vasculature file, and the opening of a file of it.\<close>

definition example_file :: "nat list h5" where
  "example_file =
     Group [(''points'', Dataset [1, 2, 3]), (''edges'', Dataset [4, 5]),
            (''chains'', Group [(''structure'', Dataset [6]), (''connectivity'', Dataset [7, 8])])]"

definition example_open :: "string \<Rightarrow> string \<Rightarrow> error + nat list h5" where
  "example_open file_name mode =
     (if file_name = ''vessels.h5'' \<and> mode = ''r'' then Inr example_file else Inl OSError)"

definition example_open_any_mode :: "string \<Rightarrow> string \<Rightarrow> error + nat list h5" where
  "example_open_any_mode file_name mode =
     (if file_name = ''vessels.h5'' then Inr example_file else Inl OSError)"

section \<open>Properties of the dendrogram layout\<close>

lemma fold_append_concat:
  "(\<And>c acc. c \<in> set cs \<Longrightarrow> f c acc = acc @ F c) \<Longrightarrow> fold f cs l = l @ concat (map F cs)"
  by (induction cs arbitrary: l) auto

lemma section_at_update_below:
  "section_at (update_section_at t p f) (p @ r) =
     (case section_at t p of None \<Rightarrow> None | Some s \<Rightarrow> section_at (f s) r)"
proof (induction p arbitrary: t)
  case Nil
  then show ?case by simp
next
  case (Cons i p)
  then show ?case by (cases t) simp
qed

lemma section_at_update_other:
  "\<not> prefix p q \<Longrightarrow>
   section_at (update_section_at t p f) q =
     map_option (\<lambda>s. if prefix q p then update_section_at s (drop (length q) p) f else s)
       (section_at t q)"
proof (induction q arbitrary: t p)
  case Nil
  then show ?case by simp
next
  case (Cons j q)
  then obtain i p' where p: "p = i # p'" by (cases p) auto
  obtain sm x y cs where t: "t = Section sm x y cs" by (cases t)
  show ?case
  proof (cases "i = j")
    case True
    with Cons.prems p have "\<not> prefix p' q" by simp
    then have "section_at (update_section_at (cs ! j) p' f) q =
        map_option (\<lambda>s. if prefix q p' then update_section_at s (drop (length q) p') f else s)
          (section_at (cs ! j) q)"
      by (rule Cons.IH)
    then show ?thesis unfolding p t using True by (simp cong: if_cong)
  next
    case False
    then show ?thesis unfolding p t by (simp add: option.map_ident)
  qed
qed

lemma update_section_at_fields:
  "r \<noteq> [] \<Longrightarrow> dendrogram_x (update_section_at s r f) = dendrogram_x s"
  "r \<noteq> [] \<Longrightarrow> dendrogram_y (update_section_at s r f) = dendrogram_y s"
  "r \<noteq> [] \<Longrightarrow> samples (update_section_at s r f) = samples s"
  "r \<noteq> [] \<Longrightarrow> length (children (update_section_at s r f)) = length (children s)"
  by (cases s; cases r; simp)+


lemma section_at_append:
  "section_at t (p @ r) = (case section_at t p of None \<Rightarrow> None | Some s \<Rightarrow> section_at s r)"
  by (induction p arbitrary: t) simp_all

lemma section_at_snoc:
  "section_at t (q @ [k]) =
     (case section_at t q of None \<Rightarrow> None
      | Some s \<Rightarrow> if k < length (children s) then Some (children s ! k) else None)"
  by (simp add: section_at_append split: option.splits)

lemma valid_snoc: "valid t (q @ [k]) \<longleftrightarrow> k < arity t q"
  by (simp add: valid_def arity_def section_at_snoc split: option.splits)

lemma valid_prefix: "valid t (q @ r) \<Longrightarrow> valid t q"
  by (simp add: valid_def section_at_append split: option.splits)

lemma section_at_below_assignment:
  "r \<noteq> [] \<Longrightarrow>
   section_at (Section (samples s) (Some v) (dendrogram_y s) (children s)) r = section_at s r"
  by (cases r) simp_all

text \<open>The division in the walk towards the root is never by zero.\<close>

lemma parent_has_children:
  assumes "section_at t p = Some s" "parent p = Some q"
  shows "\<exists>section_parent. section_at t q = Some section_parent \<and> children section_parent \<noteq> []"
proof -
  from assms(2) have p: "p = q @ [last p]"
    by (auto simp: parent_def split: if_splits)
  with assms(1) have "valid t (q @ [last p])" by (simp add: valid_def)
  then have "last p < arity t q" by (simp add: valid_snoc)
  then show ?thesis by (cases "section_at t q") (auto simp: arity_def)
qed

lemma set_x_section_at:
  "rel_option (\<lambda>s' s. length (children s') = length (children s) \<and>
       dendrogram_x s' = (if q = a then Some v else dendrogram_x s) \<and>
       dendrogram_y s' = dendrogram_y s \<and> samples s' = samples s)
     (section_at (set_dendrogram_x t a v) q) (section_at t q)"
proof (cases "prefix a q")
  case True
  then obtain r where q: "q = a @ r" by (auto simp: prefix_def)
  show ?thesis
  proof (cases "r = []")
    case True
    with q show ?thesis
      using section_at_update_below[of t a _ "[]"]
      by (simp add: set_dendrogram_x_def split: option.splits)
  next
    case False
    then have "q \<noteq> a" using q by simp
    moreover have "section_at (set_dendrogram_x t a v) q = section_at t q"
      unfolding q set_dendrogram_x_def section_at_update_below
      by (simp add: section_at_append section_at_below_assignment[OF False] split: option.splits)
    ultimately show ?thesis
      by (simp add: option.rel_refl_strong)
  qed
next
  case False
  then have neq: "q \<noteq> a" by auto
  have "prefix q a \<Longrightarrow> drop (length q) a \<noteq> []"
    using neq by (auto simp: prefix_def)
  then show ?thesis
    using neq section_at_update_other[OF False, of t]
    by (cases "section_at t q") (simp_all add: set_dendrogram_x_def update_section_at_fields)
qed

lemma set_x_valid [simp]: "valid (set_dendrogram_x t a v) q = valid t q"
  using set_x_section_at[of q a v t]
  by (cases "section_at (set_dendrogram_x t a v) q"; cases "section_at t q") (simp_all add: valid_def)

lemma set_x_arity [simp]: "arity (set_dendrogram_x t a v) q = arity t q"
  using set_x_section_at[of q a v t]
  by (cases "section_at (set_dendrogram_x t a v) q"; cases "section_at t q") (simp_all add: arity_def)

lemma set_x_xat: "xat (set_dendrogram_x t a v) q = (if q = a \<and> valid t a then Some v else xat t q)"
  using set_x_section_at[of q a v t]
  by (cases "section_at (set_dendrogram_x t a v) q"; cases "section_at t q")
    (auto simp: xat_def valid_def)


lemma accumulate_children_x_eq:
  "accumulate_children_x cs x0 =
     (if None \<in> set (map dendrogram_x cs) then None
      else Some (x0 + sum_list (map the (map dendrogram_x cs))))"
proof (induction cs arbitrary: x0)
  case Nil
  then show ?case by simp
next
  case (Cons c cs)
  then show ?case by (cases "dendrogram_x c") (auto simp: add.assoc)
qed

lemma accumulate_mean_of:
  "map_option (\<lambda>x. x / real (length cs)) (accumulate_children_x cs 0) =
     mean_of (map dendrogram_x cs)"
  by (simp add: accumulate_children_x_eq mean_of_def)

lemma children_xs:
  assumes "section_at t q = Some s"
  shows "map dendrogram_x (children s) = map (\<lambda>k. xat t (q @ [k])) [0..<arity t q]"
proof (rule nth_equalityI)
  show "length (map dendrogram_x (children s)) = length (map (\<lambda>k. xat t (q @ [k])) [0..<arity t q])"
    using assms by (simp add: arity_def)
next
  fix k assume "k < length (map dendrogram_x (children s))"
  then show "map dendrogram_x (children s) ! k = map (\<lambda>k. xat t (q @ [k])) [0..<arity t q] ! k"
    using assms by (simp add: arity_def xat_def section_at_snoc)
qed

lemma mean_at_eq:
  "mean_at t q = (if valid t q then mean_of (map (\<lambda>k. xat t (q @ [k])) [0..<arity t q]) else None)"
  by (cases "section_at t q") (simp_all add: mean_at_def valid_def children_xs)

lemma mean_at_cong:
  assumes "valid t' q = valid t q" "arity t' q = arity t q"
    and "\<And>k. k < arity t q \<Longrightarrow> xat t' (q @ [k]) = xat t (q @ [k])"
  shows "mean_at t' q = mean_at t q"
proof -
  have eq: "map (\<lambda>k. xat t' (q @ [k])) [0..<arity t q] = map (\<lambda>k. xat t (q @ [k])) [0..<arity t q]"
    by (rule map_cong) (simp_all add: assms(3))
  show ?thesis unfolding mean_at_eq assms(1,2) eq ..
qed

lemma mean_at_defined:
  "mean_at t q \<noteq> None \<longleftrightarrow> valid t q \<and> (\<forall>k < arity t q. xat t (q @ [k]) \<noteq> None)"
proof -
  have h: "None \<in> set (map f [0..<n]) \<longleftrightarrow> (\<exists>k < n. f k = None)"
    for f :: "nat \<Rightarrow> real option" and n
    by (induction n) (auto simp: less_Suc_eq)
  show ?thesis by (auto simp add: mean_at_eq mean_of_def h simp del: set_map set_upt)
qed

lemma cxp_None [simp]: "compute_dendrogram_x_coordinates_for_parents t None = t"
  by (subst compute_dendrogram_x_coordinates_for_parents.simps) simp

lemma cxp_Nil [simp]: "compute_dendrogram_x_coordinates_for_parents t (Some []) = t"
  by (subst compute_dendrogram_x_coordinates_for_parents.simps) (simp add: parent_def)

lemma cxp_snoc:
  "compute_dendrogram_x_coordinates_for_parents t (Some (q @ [i])) =
     (if valid t (q @ [i]) then
        (case mean_at t q of
           None \<Rightarrow> t
         | Some m \<Rightarrow> compute_dendrogram_x_coordinates_for_parents (set_dendrogram_x t q m) (Some q))
      else t)"
proof (cases "valid t (q @ [i])")
  case False
  then show ?thesis
    by (subst compute_dendrogram_x_coordinates_for_parents.simps) (simp add: valid_def)
next
  case True
  then obtain s0 where s0: "section_at t (q @ [i]) = Some s0" by (auto simp: valid_def)
  from True have "valid t q" by (rule valid_prefix)
  then obtain s where s: "section_at t q = Some s" by (auto simp: valid_def)
  have m: "mean_at t q = map_option (\<lambda>x. x / real (length (children s))) (accumulate_children_x (children s) 0)"
    by (simp add: mean_at_def s accumulate_mean_of)
  show ?thesis
    by (subst compute_dendrogram_x_coordinates_for_parents.simps)
      (simp add: True s0 s m parent_def split: option.splits)
qed

lemma cxp_shape:
  "valid (compute_dendrogram_x_coordinates_for_parents t (Some p)) q = valid t q \<and>
   arity (compute_dendrogram_x_coordinates_for_parents t (Some p)) q = arity t q"
proof (induction p arbitrary: t rule: rev_induct)
  case Nil
  then show ?case by simp
next
  case (snoc i p)
  then show ?case by (simp add: cxp_snoc split: option.splits)
qed

lemma cxp_xat_elsewhere:
  "\<not> strict_prefix q p \<Longrightarrow> xat (compute_dendrogram_x_coordinates_for_parents t (Some p)) q = xat t q"
proof (induction p arbitrary: t rule: rev_induct)
  case Nil
  then show ?case by simp
next
  case (snoc i p)
  from snoc.prems have "\<not> strict_prefix q p" and "q \<noteq> p"
    by (auto simp: strict_prefix_def)
  then show ?case
    using snoc.IH by (simp add: cxp_snoc set_x_xat split: option.splits)
qed


lemma strict_prefix_arity:
  assumes "valid t p" "strict_prefix q p"
  shows "0 < arity t q"
proof -
  from assms(2) obtain k r where "p = q @ k # r"
    by (rule strict_prefixE')
  then have p: "p = (q @ [k]) @ r" by simp
  with assms(1) have "valid t (q @ [k])" using valid_prefix by blast
  then show ?thesis by (simp add: valid_snoc)
qed

lemma not_strict_prefix_append [simp]: "\<not> strict_prefix (p @ r) p"
  by (auto simp: strict_prefix_def prefix_def)

lemma cxp_completes:
  "valid t p \<Longrightarrow> xat t p \<noteq> None \<Longrightarrow> strict_prefix q p \<Longrightarrow> siblings_computed t p q \<Longrightarrow>
   good (compute_dendrogram_x_coordinates_for_parents t (Some p)) q"
proof (induction p arbitrary: t rule: rev_induct)
  case Nil
  then show ?case by simp
next
  case (snoc i p)
  let ?cxp = compute_dendrogram_x_coordinates_for_parents
  from snoc.prems(1) have vp: "valid t p" by (rule valid_prefix)
  from snoc.prems(3) have qp: "prefix q p" by (auto simp: strict_prefix_def)
  have "xat t (p @ [k]) \<noteq> None" if "k < arity t p" for k
  proof (cases "k = i")
    case True
    with snoc.prems(2) show ?thesis by simp
  next
    case False
    then have "\<not> prefix (p @ [k]) (p @ [i])" by simp
    moreover have "strict_prefix p (p @ [i])" by (simp add: strict_prefix_def)
    ultimately show ?thesis
      using snoc.prems(4) qp that unfolding siblings_computed_def by blast
  qed
  with vp have "mean_at t p \<noteq> None" unfolding mean_at_defined by blast
  then obtain m where m: "mean_at t p = Some m" by auto
  let ?t1 = "set_dendrogram_x t p m"
  have unfold: "?cxp t (Some (p @ [i])) = ?cxp ?t1 (Some p)"
    using snoc.prems(1) m by (simp add: cxp_snoc)
  have x1: "xat ?t1 p = Some m" using vp by (simp add: set_x_xat)
  show ?case
  proof (cases "q = p")
    case True
    have "mean_at (?cxp ?t1 (Some p)) p = mean_at ?t1 p"
      by (rule mean_at_cong) (simp_all add: cxp_shape cxp_xat_elsewhere)
    also have "\<dots> = mean_at t p"
      by (rule mean_at_cong) (simp_all add: set_x_xat)
    finally have "mean_at (?cxp ?t1 (Some p)) p = Some m" using m by simp
    moreover have "xat (?cxp ?t1 (Some p)) p = Some m"
      using x1 by (simp add: cxp_xat_elsewhere)
    ultimately show ?thesis unfolding unfold True good_def by simp
  next
    case False
    with qp have sp: "strict_prefix q p" by (simp add: strict_prefix_def)
    have "siblings_computed ?t1 p q"
      unfolding siblings_computed_def
    proof (intro allI impI, elim conjE)
      fix a k
      assume a: "prefix q a" "strict_prefix a p" "k < arity ?t1 a" "\<not> prefix (a @ [k]) p"
      from a(2) have "strict_prefix a (p @ [i])" by (auto simp: strict_prefix_def prefix_def)
      moreover have "\<not> prefix (a @ [k]) (p @ [i])"
        using a(2,4) by (auto simp: strict_prefix_def)
      ultimately have "xat t (a @ [k]) \<noteq> None"
        using snoc.prems(4) a(1,3) unfolding siblings_computed_def by simp
      moreover have "a @ [k] \<noteq> p" using a(4) by auto
      ultimately show "xat ?t1 (a @ [k]) \<noteq> None" by (simp add: set_x_xat)
    qed
    with x1 vp sp have "good (?cxp ?t1 (Some p)) q"
      by (intro snoc.IH) simp_all
    then show ?thesis unfolding unfold .
  qed
qed

lemma loop_step:
  assumes inv: "loop_inv t0 (l # R) t"
    and l: "valid t0 l" "arity t0 l = 0"
    and leaves: "\<forall>q. valid t0 q \<and> arity t0 q = 0 \<longrightarrow> xat t0 q \<noteq> None"
  shows "loop_inv t0 R (compute_dendrogram_x_coordinates_for_parents t (Some l))"
proof -
  let ?t' = "compute_dendrogram_x_coordinates_for_parents t (Some l)"
  from inv have shape: "\<And>q. valid t q = valid t0 q" "\<And>q. arity t q = arity t0 q"
    and leaf_x: "\<And>q. valid t0 q \<Longrightarrow> arity t0 q = 0 \<Longrightarrow> xat t q = xat t0 q"
    and completed: "\<And>q. valid t0 q \<Longrightarrow> 0 < arity t0 q \<Longrightarrow> \<forall>l' \<in> set (l # R). \<not> prefix q l' \<Longrightarrow> good t q"
    unfolding loop_inv_def by blast+
  have vl: "valid t l" using l(1) shape by simp
  have xl: "xat t l \<noteq> None" using l leaves leaf_x by simp
  have computed: "xat t r \<noteq> None"
    if "valid t0 r" "\<forall>l' \<in> set (l # R). \<not> prefix r l'" for r
  proof (cases "arity t0 r = 0")
    case True
    with that(1) leaves leaf_x show ?thesis by simp
  next
    case False
    with that have "good t r" by (intro completed) simp_all
    then show ?thesis by (auto simp: good_def)
  qed
  have "good ?t' q" if q: "valid t0 q" "0 < arity t0 q" "\<forall>l' \<in> set R. \<not> prefix q l'" for q
  proof (cases "prefix q l")
    case True
    with q(2) l(2) have sp: "strict_prefix q l" by (auto simp: strict_prefix_def)
    have "siblings_computed t l q"
      unfolding siblings_computed_def
    proof (intro allI impI, elim conjE)
      fix a k
      assume a: "prefix q a" "strict_prefix a l" "k < arity t a" "\<not> prefix (a @ [k]) l"
      have "valid t0 (a @ [k])" using a(3) shape by (simp add: valid_snoc flip: shape(1))
      moreover have "\<not> prefix (a @ [k]) l'" if "l' \<in> set R" for l'
      proof
        assume "prefix (a @ [k]) l'"
        with a(1) have "prefix q l'" by (auto simp: prefix_def)
        with q(3) that show False by blast
      qed
      ultimately show "xat t (a @ [k]) \<noteq> None"
        using a(4) by (intro computed) auto
    qed
    with vl xl sp show ?thesis by (rule cxp_completes)
  next
    case False
    with q have "good t q" by (intro completed) simp_all
    moreover have "mean_at ?t' q = mean_at t q"
    proof (rule mean_at_cong)
      fix k
      have "\<not> strict_prefix (q @ [k]) l" using False by (auto simp: strict_prefix_def prefix_def)
      then show "xat ?t' (q @ [k]) = xat t (q @ [k])" by (rule cxp_xat_elsewhere)
    qed (simp_all add: cxp_shape)
    moreover have "xat ?t' q = xat t q"
      using False by (intro cxp_xat_elsewhere) (auto simp: strict_prefix_def)
    ultimately show ?thesis by (simp add: good_def)
  qed
  moreover have "xat ?t' q = xat t0 q" if q: "valid t0 q" "arity t0 q = 0" for q
  proof -
    have "\<not> strict_prefix q l"
      using strict_prefix_arity[OF l(1), of q] q(2) by auto
    then have "xat ?t' q = xat t q" by (rule cxp_xat_elsewhere)
    with q leaf_x show ?thesis by simp
  qed
  ultimately show ?thesis
    unfolding loop_inv_def by (simp add: cxp_shape shape)
qed

lemma loop_all:
  assumes "loop_inv t0 L t"
    and "\<forall>l \<in> set L. valid t0 l \<and> arity t0 l = 0"
    and "\<forall>q. valid t0 q \<and> arity t0 q = 0 \<longrightarrow> xat t0 q \<noteq> None"
  shows "loop_inv t0 []
    (fold (\<lambda>leaf a. compute_dendrogram_x_coordinates_for_parents a (Some leaf)) L t)"
  using assms
proof (induction L arbitrary: t)
  case Nil
  then show ?case by simp
next
  case (Cons l L)
  from Cons.prems have "loop_inv t0 L (compute_dendrogram_x_coordinates_for_parents t (Some l))"
    by (intro loop_step) simp_all
  with Cons.prems show ?case by (simp add: Cons.IH)
qed


lemma enumerate_upt: "enumerate 0 cs = map (\<lambda>i. (i, cs ! i)) [0..<length cs]"
  by (rule nth_equalityI) (simp_all add: nth_enumerate_eq)

lemma get_subtree_leaves_eq:
  "get_subtree_leaves p s acc = acc @ map ((@) p) (leaf_paths s)"
proof (induction s arbitrary: p acc)
  case (Section sm x y cs)
  show ?case
  proof (cases "cs = []")
    case True
    then show ?thesis by (simp add: is_leaf_def)
  next
    case False
    have "fold (\<lambda>(i, child) leaves. get_subtree_leaves (p @ [i]) child leaves) (enumerate 0 cs) acc =
        fold (\<lambda>i leaves. get_subtree_leaves (p @ [i]) (cs ! i) leaves) [0..<length cs] acc"
      unfolding enumerate_upt by (simp add: fold_map comp_def)
    also have "\<dots> = acc @ concat (map (\<lambda>i. map ((@) (p @ [i])) (leaf_paths (cs ! i))) [0..<length cs])"
      by (rule fold_append_concat) (simp add: Section.IH)
    also have "concat (map (\<lambda>i. map ((@) (p @ [i])) (leaf_paths (cs ! i))) [0..<length cs]) =
        map ((@) p) (concat (map (\<lambda>i. map ((#) i) (leaf_paths (cs ! i))) [0..<length cs]))"
    proof -
      have "(@) (p @ [i]) = (\<lambda>l. p @ i # l)" for i by (simp add: fun_eq_iff)
      then show ?thesis by (simp add: map_concat comp_def)
    qed
    finally show ?thesis using False
      by (simp add: is_leaf_def)
  qed
qed

lemma get_arbor_leaves_eq: "get_arbor_leaves (Some t) = leaf_paths t"
proof -
  have "map ((@) []) (leaf_paths t) = leaf_paths t" by (induction "leaf_paths t") auto
  then show ?thesis by (simp add: get_arbor_leaves_def get_subtree_leaves_eq)
qed

lemma set_leaf_paths:
  "set (leaf_paths (Section sm x y cs)) =
     (if cs = [] then {[]}
      else {i # l | i l. i < length cs \<and> l \<in> set (leaf_paths (cs ! i))})"
  by auto

lemma leaf_paths_nonempty: "leaf_paths s \<noteq> []"
proof (induction s)
  case (Section sm x y cs)
  show ?case
  proof (cases "cs = []")
    case True
    then show ?thesis by simp
  next
    case False
    then have "cs ! 0 \<in> set cs" by simp
    then have "leaf_paths (cs ! 0) \<noteq> []" by (rule Section.IH)
    then obtain l where "l \<in> set (leaf_paths (cs ! 0))"
      by (cases "leaf_paths (cs ! 0)") auto
    with False have mem: "0 # l \<in> set (leaf_paths (Section sm x y cs))"
      unfolding set_leaf_paths by auto
    show ?thesis
    proof
      assume e: "leaf_paths (Section sm x y cs) = []"
      from mem show False unfolding e by simp
    qed
  qed
qed

lemma leaf_paths_valid:
  "l \<in> set (leaf_paths s) \<Longrightarrow> valid s l \<and> arity s l = 0"
proof (induction s arbitrary: l)
  case (Section sm x y cs)
  show ?case
  proof (cases "cs = []")
    case True
    with Section.prems show ?thesis by (simp add: valid_def arity_def)
  next
    case False
    with Section.prems obtain i l' where l: "l = i # l'" "i < length cs" "l' \<in> set (leaf_paths (cs ! i))"
      unfolding set_leaf_paths by auto
    then have "valid (cs ! i) l' \<and> arity (cs ! i) l' = 0"
      by (intro Section.IH) simp_all
    with l show ?thesis by (simp add: valid_def arity_def)
  qed
qed

lemma leaf_paths_cover:
  "valid s q \<Longrightarrow> \<exists>l \<in> set (leaf_paths s). prefix q l"
proof (induction s arbitrary: q)
  case (Section sm x y cs)
  show ?case
  proof (cases q)
    case Nil
    obtain l where "l \<in> set (leaf_paths (Section sm x y cs))"
      using leaf_paths_nonempty[of "Section sm x y cs"]
      by (cases "leaf_paths (Section sm x y cs)") auto
    with Nil show ?thesis by auto
  next
    case (Cons i q')
    with Section.prems have i: "i < length cs" and v: "valid (cs ! i) q'"
      by (auto simp: valid_def split: if_splits)
    then obtain l where "l \<in> set (leaf_paths (cs ! i))" "prefix q' l"
      using Section.IH[of "cs ! i" q'] by auto
    with i Cons have "i # l \<in> set (leaf_paths (Section sm x y cs))" "prefix q (i # l)"
      unfolding set_leaf_paths by auto
    then show ?thesis by blast
  qed
qed

lemma distinct_indexed_paths:
  "(\<And>i. i < n \<Longrightarrow> distinct (F i)) \<Longrightarrow>
   distinct (concat (map (\<lambda>i. map ((#) i) (F i)) [0..<n]))"
proof (induction n)
  case 0
  then show ?case by simp
next
  case (Suc n)
  have "distinct (map ((#) n) (F n))" using Suc.prems by (simp add: distinct_map)
  moreover have "distinct (concat (map (\<lambda>i. map ((#) i) (F i)) [0..<n]))"
    using Suc.prems by (intro Suc.IH) simp
  moreover have "set (concat (map (\<lambda>i. map ((#) i) (F i)) [0..<n])) \<inter> set (map ((#) n) (F n)) = {}"
    by auto
  ultimately show ?case by simp
qed

lemma leaf_paths_distinct: "distinct (leaf_paths s)"
proof (induction s)
  case (Section sm x y cs)
  show ?case
  proof (cases "cs = []")
    case True
    then show ?thesis by simp
  next
    case False
    have "distinct (concat (map (\<lambda>i. map ((#) i) (leaf_paths (cs ! i))) [0..<length cs]))"
      by (rule distinct_indexed_paths) (simp add: Section.IH)
    with False show ?thesis by simp
  qed
qed


lemma leaves_loop:
  assumes "distinct L" "\<forall>l \<in> set L. valid t l"
  shows "(\<forall>q. valid (fold (\<lambda>(i, leaf) a. set_dendrogram_x a leaf (real i * delta)) (enumerate n L) t) q = valid t q \<and>
              arity (fold (\<lambda>(i, leaf) a. set_dendrogram_x a leaf (real i * delta)) (enumerate n L) t) q = arity t q) \<and>
         (\<forall>i < length L. xat (fold (\<lambda>(i, leaf) a. set_dendrogram_x a leaf (real i * delta)) (enumerate n L) t) (L ! i) =
              Some (real (n + i) * delta)) \<and>
         (\<forall>q. q \<notin> set L \<longrightarrow> xat (fold (\<lambda>(i, leaf) a. set_dendrogram_x a leaf (real i * delta)) (enumerate n L) t) q = xat t q)"
  using assms
proof (induction L arbitrary: n t)
  case Nil
  then show ?case by simp
next
  case (Cons l L)
  let ?t1 = "set_dendrogram_x t l (real n * delta)"
  let ?f = "\<lambda>(i, leaf) a. set_dendrogram_x a leaf (real i * delta)"
  let ?r = "fold ?f (enumerate (Suc n) L) ?t1"
  have r: "fold ?f (enumerate n (l # L)) t = ?r" by simp
  from Cons.prems have IH:
    "\<forall>q. valid ?r q = valid ?t1 q \<and> arity ?r q = arity ?t1 q"
    "\<forall>i < length L. xat ?r (L ! i) = Some (real (Suc n + i) * delta)"
    "\<forall>q. q \<notin> set L \<longrightarrow> xat ?r q = xat ?t1 q"
    using Cons.IH[of ?t1 "Suc n"] by simp_all
  have "xat ?r ((l # L) ! i) = Some (real (n + i) * delta)" if "i < length (l # L)" for i
  proof (cases i)
    case 0
    from Cons.prems have "l \<notin> set L" "valid t l" by simp_all
    with IH(3) 0 show ?thesis by (simp add: set_x_xat)
  next
    case (Suc j)
    with that IH(2) show ?thesis by simp
  qed
  moreover have "xat ?r q = xat t q" if "q \<notin> set (l # L)" for q
    using that IH(3) by (simp add: set_x_xat)
  ultimately show ?case unfolding r using IH(1) by simp
qed

lemma cy_fields [simp]:
  "dendrogram_x (compute_dendrogram_y_coordinates_for_children f p s) = dendrogram_x s"
  "dendrogram_y (compute_dendrogram_y_coordinates_for_children f p s) = Some (f p)"
  "samples (compute_dendrogram_y_coordinates_for_children f p s) = samples s"
  "length (children (compute_dendrogram_y_coordinates_for_children f p s)) = length (children s)"
  by (cases s; simp)+

lemma cy_section_at:
  "section_at (compute_dendrogram_y_coordinates_for_children f p s) q =
     map_option (compute_dendrogram_y_coordinates_for_children f (p @ q)) (section_at s q)"
proof (induction q arbitrary: p s)
  case Nil
  then show ?case by simp
next
  case (Cons i q)
  obtain sm x y cs where s: "s = Section sm x y cs" by (cases s)
  show ?case
  proof (cases "i < length cs")
    case True
    then show ?thesis using Cons.IH[of "p @ [i]" "cs ! i"] by (simp add: s nth_enumerate_eq)
  next
    case False
    then show ?thesis by (simp add: s)
  qed
qed

lemma cy_views [simp]:
  "valid (compute_dendrogram_y_coordinates_for_children f p s) q = valid s q"
  "arity (compute_dendrogram_y_coordinates_for_children f p s) q = arity s q"
  "xat (compute_dendrogram_y_coordinates_for_children f p s) q = xat s q"
  by (cases "section_at s q"; simp add: valid_def arity_def xat_def cy_section_at)+

lemma good_section:
  assumes "good t q" "section_at t q = Some s"
  shows "(\<forall>c \<in> set (children s). dendrogram_x c \<noteq> None) \<and>
     dendrogram_x s =
       Some (sum_list (map (\<lambda>c. the (dendrogram_x c)) (children s)) / real (length (children s)))"
proof -
  from assms have m: "None \<notin> set (map dendrogram_x (children s))"
    and x: "dendrogram_x s = Some (sum_list (map the (map dendrogram_x (children s))) /
        real (length (children s)))"
    by (auto simp: good_def mean_at_def mean_of_def xat_def split: if_splits)
  have "dendrogram_x c \<noteq> None" if "c \<in> set (children s)" for c
  proof
    assume "dendrogram_x c = None"
    with that have "None \<in> set (map dendrogram_x (children s))" by force
    with m show False by contradiction
  qed
  with x show ?thesis by (simp add: comp_def)
qed

lemma good_transfer:
  assumes "good t q" "\<And>r. valid t' r = valid t r" "\<And>r. arity t' r = arity t r"
    "\<And>r. xat t' r = xat t r"
  shows "good t' q"
proof -
  have "mean_at t' q = mean_at t q" by (rule mean_at_cong) (simp_all add: assms)
  with assms(1,4) show ?thesis by (simp add: good_def)
qed

lemma compute_arbor_dendrogram_eq:
  "compute_arbor_dendrogram f (Some a) delta =
     Inr (compute_dendrogram_y_coordinates_for_children f [] (x_phase a delta))"
  by (simp add: compute_arbor_dendrogram_def get_arbor_leaves_eq x_phase_def Let_def)

lemma x_phase_correct:
  "(\<forall>q. valid (x_phase a delta) q = valid a q \<and> arity (x_phase a delta) q = arity a q) \<and>
   (\<forall>i < length (leaf_paths a). xat (x_phase a delta) (leaf_paths a ! i) = Some (real i * delta)) \<and>
   (\<forall>q. valid a q \<and> 0 < arity a q \<longrightarrow> good (x_phase a delta) q)"
proof -
  let ?L = "leaf_paths a"
  let ?t0 = "fold (\<lambda>(i, leaf) a. set_dendrogram_x a leaf (real i * delta)) (enumerate 0 ?L) a"
  have L: "\<forall>l \<in> set ?L. valid a l \<and> arity a l = 0" using leaf_paths_valid by blast
  then have "\<forall>l \<in> set ?L. valid a l" by blast
  with leaf_paths_distinct[of a] have t0:
    "\<And>q. valid ?t0 q = valid a q" "\<And>q. arity ?t0 q = arity a q"
    "\<And>i. i < length ?L \<Longrightarrow> xat ?t0 (?L ! i) = Some (real i * delta)"
    using leaves_loop[of ?L a delta 0] by simp_all
  have leaf_in: "q \<in> set ?L" if "valid a q" "arity a q = 0" for q
  proof -
    from that(1) obtain l where l: "l \<in> set ?L" "prefix q l" using leaf_paths_cover by blast
    have "l = q"
    proof (rule ccontr)
      assume "l \<noteq> q"
      with l(2) have "strict_prefix q l" by (simp add: strict_prefix_def)
      moreover from l(1) L have "valid a l" by blast
      ultimately have "0 < arity a q" using strict_prefix_arity by blast
      with that(2) show False by simp
    qed
    with l(1) show ?thesis by simp
  qed
  have leaves_x: "\<forall>q. valid ?t0 q \<and> arity ?t0 q = 0 \<longrightarrow> xat ?t0 q \<noteq> None"
  proof (intro allI impI)
    fix q assume "valid ?t0 q \<and> arity ?t0 q = 0"
    then have "q \<in> set ?L" using leaf_in t0(1,2) by simp
    then obtain i where "i < length ?L" "?L ! i = q" by (auto simp: in_set_conv_nth)
    with t0(3)[of i] show "xat ?t0 q \<noteq> None" by simp
  qed
  have "loop_inv ?t0 ?L ?t0"
    unfolding loop_inv_def using leaf_paths_cover[of a] t0(1) by (auto simp: good_def)
  moreover have "\<forall>l \<in> set ?L. valid ?t0 l \<and> arity ?t0 l = 0" using L t0(1,2) by simp
  ultimately have "loop_inv ?t0 [] (x_phase a delta)"
    unfolding x_phase_def using leaves_x by (rule loop_all)
  then have fin: "\<And>q. valid (x_phase a delta) q = valid ?t0 q"
    "\<And>q. arity (x_phase a delta) q = arity ?t0 q"
    "\<And>q. valid ?t0 q \<Longrightarrow> arity ?t0 q = 0 \<Longrightarrow> xat (x_phase a delta) q = xat ?t0 q"
    "\<And>q. valid ?t0 q \<Longrightarrow> 0 < arity ?t0 q \<Longrightarrow> good (x_phase a delta) q"
    unfolding loop_inv_def by simp_all
  have "xat (x_phase a delta) (?L ! i) = Some (real i * delta)" if "i < length ?L" for i
  proof -
    from that have "?L ! i \<in> set ?L" by simp
    with L have "valid ?t0 (?L ! i)" "arity ?t0 (?L ! i) = 0" using t0(1,2) by simp_all
    then show ?thesis using fin(3) t0(3)[OF that] by simp
  qed
  then show ?thesis using fin(1,2,4) t0(1,2) by simp
qed

text \<open>
  C1.  For an arbor that is not \<open>None\<close> the call returns.  The tree keeps its shape; the
  \<open>i\<close>-th leaf in the order of \<open>get_arbor_leaves\<close> has the X-coordinate \<open>i * delta\<close>; and
  every interior section has children that all have an X-coordinate, and its own is their
  arithmetic mean.
\<close>

theorem compute_arbor_dendrogram_x:
  "\<exists>t'. compute_arbor_dendrogram f (Some arbor) delta = Inr t' \<and>
     (\<forall>q. (section_at t' q = None) = (section_at arbor q = None)) \<and>
     (\<forall>i < length (get_arbor_leaves (Some arbor)).
        \<exists>s. section_at t' (get_arbor_leaves (Some arbor) ! i) = Some s \<and> is_leaf s \<and>
            dendrogram_x s = Some (real i * delta)) \<and>
     (\<forall>q s. section_at t' q = Some s \<and> \<not> is_leaf s \<longrightarrow>
        (\<forall>c \<in> set (children s). dendrogram_x c \<noteq> None) \<and>
        dendrogram_x s =
          Some (sum_list (map (\<lambda>c. the (dendrogram_x c)) (children s)) /
                real (length (children s))))"
proof -
  let ?t' = "compute_dendrogram_y_coordinates_for_children f [] (x_phase arbor delta)"
  note xp = x_phase_correct[of arbor delta]
  have shape: "valid ?t' q = valid arbor q" "arity ?t' q = arity arbor q" for q
    using xp by simp_all
  have "\<exists>s. section_at ?t' (leaf_paths arbor ! i) = Some s \<and> is_leaf s \<and>
      dendrogram_x s = Some (real i * delta)" if i: "i < length (leaf_paths arbor)" for i
  proof -
    let ?l = "leaf_paths arbor ! i"
    from i have "?l \<in> set (leaf_paths arbor)" by simp
    then have "valid arbor ?l" "arity arbor ?l = 0" using leaf_paths_valid by blast+
    then have "valid ?t' ?l" "arity ?t' ?l = 0" using shape by simp_all
    moreover have "xat ?t' ?l = Some (real i * delta)" using xp i by simp
    ultimately show ?thesis
      by (auto simp: valid_def arity_def xat_def is_leaf_def)
  qed
  moreover have "(\<forall>c \<in> set (children s). dendrogram_x c \<noteq> None) \<and>
      dendrogram_x s =
        Some (sum_list (map (\<lambda>c. the (dendrogram_x c)) (children s)) / real (length (children s)))"
    if s: "section_at ?t' q = Some s" "\<not> is_leaf s" for q s
  proof -
    from s have "valid ?t' q" "0 < arity ?t' q"
      by (simp_all add: valid_def arity_def is_leaf_def)
    then have "good (x_phase arbor delta) q" using xp shape by simp
    then have "good ?t' q" by (rule good_transfer) simp_all
    then show ?thesis using s(1) by (rule good_section)
  qed
  moreover have "(section_at ?t' q = None) = (section_at arbor q = None)" for q
    using shape(1)[of q] unfolding valid_def by blast
  ultimately show ?thesis
    unfolding compute_arbor_dendrogram_eq get_arbor_leaves_eq by blast
qed

lemma example_dendrogram:
  "compute_arbor_dendrogram example_path_length (Some example_arbor) 10 =
     Inr (Section [] (Some 5) (Some 0)
            [Section [] (Some 0) (Some 1) [], Section [] (Some 10) (Some 1) []])"
  by code_simp

lemma example_leaves: "get_arbor_leaves (Some example_arbor) = [[0], [1]]"
  by code_simp

theorem compute_arbor_dendrogram_x_witness:
  "(1::nat) < length (get_arbor_leaves (Some example_arbor)) \<and>
   get_arbor_leaves (Some example_arbor) ! 1 = [1] \<and>
   (\<exists>t' s. compute_arbor_dendrogram example_path_length (Some example_arbor) 10 = Inr t' \<and>
      section_at t' [1] = Some s \<and> is_leaf s \<and> dendrogram_x s = Some 10 \<and>
      section_at t' [] = Some t' \<and> \<not> is_leaf t' \<and> dendrogram_x t' = Some 5)"
proof -
  obtain t' where t': "compute_arbor_dendrogram example_path_length (Some example_arbor) 10 = Inr t'"
    and leaf: "\<forall>i < length (get_arbor_leaves (Some example_arbor)).
        \<exists>s. section_at t' (get_arbor_leaves (Some example_arbor) ! i) = Some s \<and> is_leaf s \<and>
            dendrogram_x s = Some (real i * 10)"
    and inner: "\<forall>q s. section_at t' q = Some s \<and> \<not> is_leaf s \<longrightarrow>
        (\<forall>c \<in> set (children s). dendrogram_x c \<noteq> None) \<and>
        dendrogram_x s =
          Some (sum_list (map (\<lambda>c. the (dendrogram_x c)) (children s)) /
                real (length (children s)))"
    using compute_arbor_dendrogram_x[of example_path_length example_arbor 10] by blast
  have "1 < length (get_arbor_leaves (Some example_arbor))" by (simp add: example_leaves)
  with leaf obtain s where "section_at t' (get_arbor_leaves (Some example_arbor) ! 1) = Some s"
    "is_leaf s" "dendrogram_x s = Some (real 1 * 10)" by blast
  then have s: "section_at t' [1] = Some s" "is_leaf s" "dendrogram_x s = Some 10"
    by (simp_all add: example_leaves)
  from t' have val: "t' = Section [] (Some 5) (Some 0)
            [Section [] (Some 0) (Some 1) [], Section [] (Some 10) (Some 1) []]"
    unfolding example_dendrogram by simp
  have root: "section_at t' [] = Some t'" "\<not> is_leaf t'"
    by (simp_all add: val is_leaf_def)
  with inner have "dendrogram_x t' =
      Some (sum_list (map (\<lambda>c. the (dendrogram_x c)) (children t')) / real (length (children t')))"
    by blast
  also have "\<dots> = Some 5" by (simp add: val)
  finally have "dendrogram_x t' = Some 5" .
  with t' s root show ?thesis by (simp add: example_leaves) 
qed

text \<open>
  C2.  After the call every section of the arbor, leaf or interior, has an X-coordinate.
  This holds whatever the coordinates were before the call, so in particular when they
  all start as \<open>None\<close>: the walk up from the last leaf below an interior section finds all
  the children of that section computed and fills it.
\<close>

theorem compute_arbor_dendrogram_fills_every_section:
  "\<exists>t'. compute_arbor_dendrogram f (Some arbor) delta = Inr t' \<and>
     (\<forall>q. (section_at t' q = None) = (section_at arbor q = None)) \<and>
     (\<forall>q s. section_at t' q = Some s \<longrightarrow> dendrogram_x s \<noteq> None)"
proof -
  let ?t' = "compute_dendrogram_y_coordinates_for_children f [] (x_phase arbor delta)"
  note xp = x_phase_correct[of arbor delta]
  have shape: "valid ?t' q = valid arbor q" "arity ?t' q = arity arbor q" for q
    using xp by simp_all
  have "dendrogram_x s \<noteq> None" if s: "section_at ?t' q = Some s" for q s
  proof (cases "arity arbor q = 0")
    case True
    from s have v: "valid arbor q" using shape(1)[of q] by (simp add: valid_def)
    then obtain l where l: "l \<in> set (leaf_paths arbor)" "prefix q l"
      using leaf_paths_cover by blast
    have "l = q"
    proof (rule ccontr)
      assume "l \<noteq> q"
      with l(2) have "strict_prefix q l" by (simp add: strict_prefix_def)
      moreover from l(1) have "valid arbor l" using leaf_paths_valid by blast
      ultimately have "0 < arity arbor q" using strict_prefix_arity by blast
      with True show False by simp
    qed
    with l(1) obtain i where i: "i < length (leaf_paths arbor)" "leaf_paths arbor ! i = q"
      by (auto simp: in_set_conv_nth)
    with xp have "xat (x_phase arbor delta) q = Some (real i * delta)" by auto
    then have "xat ?t' q = Some (real i * delta)" by simp
    with s show ?thesis by (simp add: xat_def)
  next
    case False
    from s have "valid arbor q" using shape(1)[of q] by (simp add: valid_def)
    with False have "good (x_phase arbor delta) q" using xp by simp
    then have "good ?t' q" by (rule good_transfer) simp_all
    with s show ?thesis by (auto simp: good_def xat_def)
  qed
  moreover have "(section_at ?t' q = None) = (section_at arbor q = None)" for q
    using shape(1)[of q] unfolding valid_def by blast
  ultimately show ?thesis
    unfolding compute_arbor_dendrogram_eq by blast
qed

theorem compute_arbor_dendrogram_fills_every_section_witness:
  "section_at example_arbor [0] \<noteq> None \<and>
   (\<exists>t' s. compute_arbor_dendrogram example_path_length (Some example_arbor) 10 = Inr t' \<and>
      section_at t' [0] = Some s \<and> dendrogram_x s \<noteq> None)"
proof -
  have here: "section_at example_arbor [0] \<noteq> None" by (simp add: example_arbor_def)
  obtain t' where t': "compute_arbor_dendrogram example_path_length (Some example_arbor) 10 = Inr t'"
    and shape: "\<forall>q. (section_at t' q = None) = (section_at example_arbor q = None)"
    and filled: "\<forall>q s. section_at t' q = Some s \<longrightarrow> dendrogram_x s \<noteq> None"
    using compute_arbor_dendrogram_fills_every_section[of example_path_length example_arbor 10]
    by blast
  from shape have "(section_at t' [0] = None) = (section_at example_arbor [0] = None)" ..
  with here have "section_at t' [0] \<noteq> None" by (simp del: section_at.simps)
  then obtain s where s: "section_at t' [0] = Some s" by auto
  with filled have "dendrogram_x s \<noteq> None" by blast
  with here t' s show ?thesis by blast
qed

text \<open>
  C3.  Called on the section at position \<open>p\<close> of an arbor, the function sets the
  Y-coordinate of every section at or below \<open>p\<close> to its path length and changes nothing
  else: the shape, the samples, every X-coordinate and the Y-coordinates of all other
  sections stay as they were.
\<close>

theorem compute_dendrogram_y_coordinates_for_children_sets_path_length:
  assumes "section_at arbor p = Some s"
  shows "(section_at (update_section_at arbor p
            (compute_dendrogram_y_coordinates_for_children f p)) q = None) =
         (section_at arbor q = None) \<and>
     (\<forall>s' s0. section_at (update_section_at arbor p
            (compute_dendrogram_y_coordinates_for_children f p)) q = Some s' \<and>
         section_at arbor q = Some s0 \<longrightarrow>
         dendrogram_y s' = (if prefix p q then Some (f q) else dendrogram_y s0) \<and>
         dendrogram_x s' = dendrogram_x s0 \<and> samples s' = samples s0 \<and>
         length (children s') = length (children s0))"
proof (cases "prefix p q")
  case True
  then obtain r where q: "q = p @ r" by (auto simp: prefix_def)
  have l: "section_at (update_section_at arbor p (compute_dendrogram_y_coordinates_for_children f p))
        (p @ r) = section_at (compute_dendrogram_y_coordinates_for_children f p s) r"
    by (simp add: section_at_update_below assms)
  have r: "section_at arbor (p @ r) = section_at s r"
    by (simp add: section_at_append assms)
  have "section_at (update_section_at arbor p (compute_dendrogram_y_coordinates_for_children f p)) q =
      map_option (compute_dendrogram_y_coordinates_for_children f q) (section_at arbor q)"
    unfolding q l r by (simp add: cy_section_at)
  then show ?thesis using True by (cases "section_at arbor q") auto
next
  case False
  have "prefix q p \<Longrightarrow> drop (length q) p \<noteq> []"
    using False by (auto simp: prefix_def)
  then show ?thesis
    using False section_at_update_other[OF False, of arbor]
    by (cases "section_at arbor q") (auto simp: update_section_at_fields)
qed

theorem compute_dendrogram_y_coordinates_for_children_sets_path_length_witness:
  "section_at example_arbor [1] = Some (Section [] (Some 7) None []) \<and>
   (\<exists>s'. section_at (update_section_at example_arbor [1]
            (compute_dendrogram_y_coordinates_for_children example_path_length [1])) [1] = Some s' \<and>
         dendrogram_y s' = Some (example_path_length [1]) \<and> dendrogram_x s' = Some 7)"
proof -
  let ?u = "update_section_at example_arbor [1]
      (compute_dendrogram_y_coordinates_for_children example_path_length [1])"
  have here: "section_at example_arbor [1] = Some (Section [] (Some 7) None [])"
    by (simp add: example_arbor_def)
  note sets = compute_dendrogram_y_coordinates_for_children_sets_path_length
      [OF here, of example_path_length "[1]"]
  from sets have "(section_at ?u [1] = None) = (section_at example_arbor [1] = None)"
    by (rule conjunct1)
  with here have "section_at ?u [1] \<noteq> None" by (simp del: section_at.simps)
  then obtain s' where s': "section_at ?u [1] = Some s'" by auto
  from sets have "\<forall>s' s0. section_at ?u [1] = Some s' \<and> section_at example_arbor [1] = Some s0 \<longrightarrow>
         dendrogram_y s' = (if prefix [1] [1::nat] then Some (example_path_length [1]) else dendrogram_y s0) \<and>
         dendrogram_x s' = dendrogram_x s0 \<and> samples s' = samples s0 \<and>
         length (children s') = length (children s0)"
    by (rule conjunct2)
  with s' here have "dendrogram_y s' = Some (example_path_length [1]) \<and> dendrogram_x s' = Some 7"
    by (simp del: section_at.simps)
  with here s' show ?thesis by blast
qed

section \<open>Properties of the surface area of an arbor\<close>

lemma fold_add_sum_list: "fold (\<lambda>a (total::real). total + a) xs s = s + sum_list xs"
  by (induction xs arbitrary: s) simp_all

text \<open>
  C4.  The result is the sum of the surface areas that the traversal of the arbor has
  collected, and 0 when it has collected none.
\<close>

theorem compute_arbor_total_surface_area_sum:
  "compute_arbor_total_surface_area apply_op area_op arbor =
     sum_list (apply_op arbor area_op []) \<and>
   (apply_op arbor area_op [] = [] \<longrightarrow>
    compute_arbor_total_surface_area apply_op area_op arbor = 0)"
  by (simp add: compute_arbor_total_surface_area_def fold_add_sum_list)

theorem compute_arbor_total_surface_area_sum_witness:
  "visit_in_order [] collect_area [] = [] \<and>
   compute_arbor_total_surface_area visit_in_order collect_area [] = 0 \<and>
   compute_arbor_total_surface_area visit_in_order collect_area [1.5, 2, 4] = 7.5"
  using compute_arbor_total_surface_area_sum [of visit_in_order collect_area "[]"]
    compute_arbor_total_surface_area_sum [of visit_in_order collect_area "[1.5, 2, 4]"]
  by (simp add: visit_in_order_def collect_area_def)

section \<open>Properties of the poly-line construction\<close>

lemma sections_with_order_ge: "so \<in> set (sections_with_order b r) \<Longrightarrow> b \<le> snd so"
proof (induction b r arbitrary: so rule: sections_with_order.induct)
  case (1 b sm x y cs)
  from "1.prems" have "so = (Section sm x y cs, b) \<or>
      (\<exists>c \<in> set cs. so \<in> set (sections_with_order (b + 1) c))"
    by auto
  then show ?case
  proof
    assume "so = (Section sm x y cs, b)"
    then show ?thesis by simp
  next
    assume "\<exists>c \<in> set cs. so \<in> set (sections_with_order (b + 1) c)"
    then obtain c where "c \<in> set cs" "so \<in> set (sections_with_order (b + 1) c)" by blast
    then have "b + 1 \<le> snd so" by (rule "1.IH")
    then show ?thesis by simp
  qed
qed

lemma filter_beyond: "m < b \<Longrightarrow> filter (within_order m) (sections_with_order b r) = []"
  by (auto simp: filter_empty_conv within_order_def dest: sections_with_order_ge)

lemma expected_children:
  "expected_poly_lines G B g b m B msi h =
     (\<lambda>c. map (make_poly_line G g msi h B) (filter (within_order m) (sections_with_order b c)))"
  by (rule ext) (simp add: expected_poly_lines_def split: list.splits)

lemma construct_tree_poly_lines_eq:
  "construct_tree_poly_lines G B g (Some r) l b m p msi h =
     l @ expected_poly_lines G B g (b + 1) m p msi h r"
proof (induction r arbitrary: l b p)
  case (Section sm x y cs)
  let ?R = "Section sm x y cs"
  show ?case
  proof (cases "b + 1 > m")
    case True
    then have "filter (within_order m) (sections_with_order (b + 1) ?R) = []"
      by (rule filter_beyond)
    moreover have "construct_tree_poly_lines G B g (Some ?R) l b m p msi h = l"
      using True by (subst construct_tree_poly_lines.simps) simp
    ultimately show ?thesis
      by (simp add: expected_poly_lines_def del: sections_with_order.simps)
  next
    case False
    have step: "\<And>c acc. c \<in> set cs \<Longrightarrow>
        construct_tree_poly_lines G B g (Some c) acc (b + 1) m B msi h =
        acc @ expected_poly_lines G B g (b + 1 + 1) m B msi h c"
      using Section.IH by simp
    have "construct_tree_poly_lines G B g (Some ?R) l b m p msi h =
        fold (\<lambda>child acc. construct_tree_poly_lines G B g (Some child) acc (b + 1) m B msi h) cs
          (l @ [make_poly_line G g msi h p (?R, b + 1)])"
      using False by (subst construct_tree_poly_lines.simps) (simp add: Let_def make_poly_line_def)
    also have "\<dots> = (l @ [make_poly_line G g msi h p (?R, b + 1)]) @
        concat (map (expected_poly_lines G B g (b + 1 + 1) m B msi h) cs)"
      by (rule fold_append_concat) (rule step)
    also have "\<dots> = l @ expected_poly_lines G B g (b + 1) m p msi h ?R"
      using False
      by (simp add: expected_poly_lines_def[of _ _ _ _ _ p] within_order_def expected_children
          filter_concat map_concat comp_def)
    finally show ?thesis .
  qed
qed

lemma construct_tree_poly_lines_None:
  "construct_tree_poly_lines G B g None l b m p msi h = l"
  by (subst construct_tree_poly_lines.simps) simp

lemma expected_material:
  "map material_index (expected_poly_lines G B g b m p msi h r) =
     map (\<lambda>so. if h then msi + snd so mod 2 else G)
       (filter (within_order m) (sections_with_order b r))"
  by (simp add: expected_poly_lines_def make_poly_line_def split: list.splits)

lemma expected_samples:
  "map poly_line_samples (expected_poly_lines G B g b m p msi h r) =
     map (\<lambda>so. g (fst so)) (filter (within_order m) (sections_with_order b r))"
  by (simp add: expected_poly_lines_def make_poly_line_def split: list.splits)

text \<open>
  C5.  The poly-lines that a call appends are, in the order of the walk, those of the
  sections within the maximum branching order, the root of the call having the order
  \<open>branching_order + 1\<close> (1 for the default 0).  The material index of the poly-line of a
  section at order \<open>b\<close> is \<open>material_start_index + b mod 2\<close> when \<open>highlight\<close> is set and
  \<open>GRAY_MATERIAL_INDEX\<close> when it is not.
\<close>

theorem construct_tree_poly_lines_material:
  "\<exists>appended.
     construct_tree_poly_lines G B g (Some r) l b m p msi h = l @ appended \<and>
     map material_index appended =
       map (\<lambda>so. if h then msi + snd so mod 2 else G)
         (filter (within_order m) (sections_with_order (b + 1) r))"
  by (simp add: construct_tree_poly_lines_eq expected_material)

text \<open>
  C6.  The function is total on finite trees.  A call on \<open>None\<close> appends nothing; a call on a
  section appends one poly-line for each section of the tree whose branching order is at
  most \<open>max_branching_order\<close>, in the order of the walk, and nothing else; a call on a
  section whose order exceeds the maximum returns at once, whatever lies below it.
\<close>

theorem construct_tree_poly_lines_bounded:
  "construct_tree_poly_lines G B g None l b m p msi h = l \<and>
   (\<exists>appended.
      construct_tree_poly_lines G B g (Some r) l b m p msi h = l @ appended \<and>
      map poly_line_samples appended =
        map (\<lambda>so. g (fst so)) (filter (within_order m) (sections_with_order (b + 1) r))) \<and>
   (m < b + 1 \<longrightarrow> construct_tree_poly_lines G B g (Some r) l b m p msi h = l)"
proof -
  have "m < b + 1 \<Longrightarrow> expected_poly_lines G B g (b + 1) m p msi h r = []"
    by (simp add: expected_poly_lines_def filter_beyond)
  then show ?thesis
    by (simp add: construct_tree_poly_lines_None construct_tree_poly_lines_eq expected_samples)
qed

theorem construct_tree_poly_lines_bounded_witness:
  "(0::int) < 0 + 1 \<and>
   construct_tree_poly_lines 8 ''basal'' samples
     (Some (Section [] None None [Section [] None None []])) [] 0 0 ''axon'' 6 True = []"
  using construct_tree_poly_lines_bounded
    [of 8 "''basal''" samples "[]" 0 0 "''axon''" 6 True "Section [] None None [Section [] None None []]"]
  by simp

lemma construct_tree_poly_lines_append:
  "construct_tree_poly_lines G B g r l b m p msi h =
     l @ construct_tree_poly_lines G B g r [] b m p msi h"
  by (cases r) (simp_all add: construct_tree_poly_lines_None construct_tree_poly_lines_eq)

text \<open>
  C7.  Two successive calls that omit \<open>poly_lines_list\<close> work on the one default list: after
  the second call it holds what it held before, then the poly-lines of the first call, then
  those of the second.  Starting from the empty list of the definition, and whenever the
  first call has appended a poly-line, this differs from what the second call leaves in a
  fresh empty list.
\<close>

theorem default_list_is_shared:
  "poly_lines_list_default
     (construct_tree_poly_lines_default_list G B g r2 b2 m2 p2 msi2 h2
        (construct_tree_poly_lines_default_list G B g r1 b1 m1 p1 msi1 h1 defaults)) =
     poly_lines_list_default defaults @
     construct_tree_poly_lines G B g r1 [] b1 m1 p1 msi1 h1 @
     construct_tree_poly_lines G B g r2 [] b2 m2 p2 msi2 h2 \<and>
   poly_lines_list_default
     (construct_tree_poly_lines_default_list G B g r2 b2 m2 p2 msi2 h2
        (construct_tree_poly_lines_default_list G B g r1 b1 m1 p1 msi1 h1
           defaults_at_definition)) =
     construct_tree_poly_lines G B g r1 [] b1 m1 p1 msi1 h1 @
     construct_tree_poly_lines G B g r2 [] b2 m2 p2 msi2 h2 \<and>
   (construct_tree_poly_lines G B g r1 [] b1 m1 p1 msi1 h1 \<noteq> [] \<longrightarrow>
    poly_lines_list_default
      (construct_tree_poly_lines_default_list G B g r2 b2 m2 p2 msi2 h2
         (construct_tree_poly_lines_default_list G B g r1 b1 m1 p1 msi1 h1
            defaults_at_definition)) \<noteq>
      construct_tree_poly_lines G B g r2 [] b2 m2 p2 msi2 h2)"
proof -
  let ?first = "construct_tree_poly_lines G B g r1 [] b1 m1 p1 msi1 h1"
  let ?second = "construct_tree_poly_lines G B g r2 [] b2 m2 p2 msi2 h2"
  have twice: "poly_lines_list_default
     (construct_tree_poly_lines_default_list G B g r2 b2 m2 p2 msi2 h2
        (construct_tree_poly_lines_default_list G B g r1 b1 m1 p1 msi1 h1 d)) =
     poly_lines_list_default d @ ?first @ ?second" for d :: "'a function_defaults"
  proof -
    have "poly_lines_list_default
       (construct_tree_poly_lines_default_list G B g r2 b2 m2 p2 msi2 h2
          (construct_tree_poly_lines_default_list G B g r1 b1 m1 p1 msi1 h1 d)) =
       construct_tree_poly_lines G B g r2
         (construct_tree_poly_lines G B g r1 (poly_lines_list_default d) b1 m1 p1 msi1 h1)
         b2 m2 p2 msi2 h2"
      by (simp add: construct_tree_poly_lines_default_list_def)
    also have "\<dots> =
        construct_tree_poly_lines G B g r1 (poly_lines_list_default d) b1 m1 p1 msi1 h1 @ ?second"
      by (rule construct_tree_poly_lines_append)
    also have "construct_tree_poly_lines G B g r1 (poly_lines_list_default d) b1 m1 p1 msi1 h1 =
        poly_lines_list_default d @ ?first"
      by (rule construct_tree_poly_lines_append)
    finally show ?thesis by simp
  qed
  from twice[of defaults] twice[of defaults_at_definition] show ?thesis
    by (simp add: defaults_at_definition_def)
qed

theorem default_list_is_shared_witness:
  "construct_tree_poly_lines 8 ''basal'' samples (Some (Section [] None None [])) [] 0 5
     ''axon'' 6 True \<noteq> [] \<and>
   poly_lines_list_default
     (construct_tree_poly_lines_default_list 8 ''basal'' samples (Some (Section [] None None []))
        0 5 ''axon'' 6 True
        (construct_tree_poly_lines_default_list 8 ''basal'' samples
           (Some (Section [] None None [])) 0 5 ''axon'' 6 True defaults_at_definition)) \<noteq>
   construct_tree_poly_lines 8 ''basal'' samples (Some (Section [] None None [])) [] 0 5
     ''axon'' 6 True"
proof -
  have nonempty: "construct_tree_poly_lines 8 ''basal'' samples (Some (Section [] None None []))
      [] 0 5 ''axon'' 6 True \<noteq> []"
    by (simp add: construct_tree_poly_lines.simps)
  with default_list_is_shared
    [of 8 "''basal''" samples "Some (Section [] None None [])" 0 5 "''axon''" 6 True
      "Some (Section [] None None [])" 0 5 "''axon''" 6 True defaults_at_definition]
  show ?thesis by blast
qed

section \<open>Properties of the plotting dependencies\<close>

lemma installs_append [simp]: "installs (a @ b) = installs a @ installs b"
  by (induction a rule: installs.induct) simp_all

lemma imports_append [simp]: "import_events (a @ b) = import_events a @ import_events b"
  by (induction a rule: import_events.induct) simp_all

lemma then_do_None: "then_do c (\<lambda>w. (None, w)) = c"
  by (auto simp: then_do_def fun_eq_iff split: prod.splits option.splits)

lemma then_do_assoc: "then_do (then_do a b) c = then_do a (then_do b c)"
  by (auto simp: then_do_def fun_eq_iff split: prod.splits option.splits)

lemma try_import_cases:
  "try_import_except_install pip p w =
     (case environment w (package_of p) of
        Imported \<Rightarrow> (None, w\<lparr>trace := trace w @ [Import p Imported]\<rparr>)
      | NotFound \<Rightarrow>
          (None, w\<lparr>environment := pip p (environment w),
                   trace := trace w @ [Import p NotFound, PipWheel p]\<rparr>)
      | Failed \<Rightarrow> (Some (OtherException p), w\<lparr>trace := trace w @ [Import p Failed]\<rparr>))"
  by (simp add: try_import_except_install_def import_statement_def pip_wheel_call_def Let_def
      split: import_outcome.splits)

lemma install_missing_trace:
  assumes "install_missing pip ps w = (exc, w')" "distinct ps"
  shows "\<exists>added. trace w' = trace w @ added \<and>
     distinct (installs added) \<and> set (installs added) \<subseteq> set ps \<and>
     prefix (map fst (import_events added)) ps \<and>
     (exc = None \<longrightarrow> map fst (import_events added) = ps) \<and>
     (\<forall>p \<in> set ps. (p \<in> set (installs added)) = (map_of (import_events added) p = Some NotFound)) \<and>
     (\<forall>p \<in> set ps. map_of (import_events added) p = Some Failed \<longrightarrow> exc = Some (OtherException p))"
  using assms
proof (induction ps arbitrary: w)
  case Nil
  then show ?case by simp
next
  case (Cons q qs)
  show ?case
  proof (cases "environment w (package_of q)")
    case Failed
    with Cons.prems have "exc = Some (OtherException q)"
      "trace w' = trace w @ [Import q Failed]"
      by (auto simp: try_import_cases then_do_def)
    then show ?thesis by simp
  next
    case Imported
    let ?w1 = "w\<lparr>trace := trace w @ [Import q Imported]\<rparr>"
    from Imported Cons.prems have run: "install_missing pip qs ?w1 = (exc, w')"
      by (simp add: try_import_cases then_do_def)
    from Cons.prems have d: "distinct qs" "q \<notin> set qs" by simp_all
    from Cons.IH[OF run d(1)] obtain added where a: "trace w' = trace ?w1 @ added"
      "distinct (installs added)" "set (installs added) \<subseteq> set qs"
      "prefix (map fst (import_events added)) qs"
      "exc = None \<longrightarrow> map fst (import_events added) = qs"
      "\<forall>p \<in> set qs. (p \<in> set (installs added)) = (map_of (import_events added) p = Some NotFound)"
      "\<forall>p \<in> set qs. map_of (import_events added) p = Some Failed \<longrightarrow> exc = Some (OtherException p)"
      by blast
    have "trace w' = trace w @ (Import q Imported # added)" using a(1) by simp
    moreover have "distinct (installs (Import q Imported # added))" using a(2) by simp
    moreover have "set (installs (Import q Imported # added)) \<subseteq> set (q # qs)" using a(3) by auto
    moreover have "prefix (map fst (import_events (Import q Imported # added))) (q # qs)" using a(4) by simp
    moreover have "exc = None \<longrightarrow> map fst (import_events (Import q Imported # added)) = q # qs"
      using a(5) by simp
    moreover have "\<forall>p \<in> set (q # qs). (p \<in> set (installs (Import q Imported # added))) =
        (map_of (import_events (Import q Imported # added)) p = Some NotFound)"
      using a(3,6) d(2) by auto
    moreover have "\<forall>p \<in> set (q # qs). map_of (import_events (Import q Imported # added)) p = Some Failed \<longrightarrow>
        exc = Some (OtherException p)"
      using a(7) by auto
    ultimately show ?thesis by (intro exI[of _ "Import q Imported # added"] conjI)
  next
    case NotFound
    let ?w1 = "w\<lparr>environment := pip q (environment w),
                   trace := trace w @ [Import q NotFound, PipWheel q]\<rparr>"
    let ?new = "\<lambda>added. Import q NotFound # PipWheel q # added"
    from NotFound Cons.prems have run: "install_missing pip qs ?w1 = (exc, w')"
      by (simp add: try_import_cases then_do_def)
    from Cons.prems have d: "distinct qs" "q \<notin> set qs" by simp_all
    from Cons.IH[OF run d(1)] obtain added where a: "trace w' = trace ?w1 @ added"
      "distinct (installs added)" "set (installs added) \<subseteq> set qs"
      "prefix (map fst (import_events added)) qs"
      "exc = None \<longrightarrow> map fst (import_events added) = qs"
      "\<forall>p \<in> set qs. (p \<in> set (installs added)) = (map_of (import_events added) p = Some NotFound)"
      "\<forall>p \<in> set qs. map_of (import_events added) p = Some Failed \<longrightarrow> exc = Some (OtherException p)"
      by blast
    have "trace w' = trace w @ ?new added" using a(1) by simp
    moreover have "distinct (installs (?new added))" using a(2,3) d(2) by auto
    moreover have "set (installs (?new added)) \<subseteq> set (q # qs)" using a(3) by auto
    moreover have "prefix (map fst (import_events (?new added))) (q # qs)" using a(4) by simp
    moreover have "exc = None \<longrightarrow> map fst (import_events (?new added)) = q # qs"
      using a(5) by simp
    moreover have "\<forall>p \<in> set (q # qs). (p \<in> set (installs (?new added))) =
        (map_of (import_events (?new added)) p = Some NotFound)"
      using a(3,6) d(2) by auto
    moreover have "\<forall>p \<in> set (q # qs). map_of (import_events (?new added)) p = Some Failed \<longrightarrow>
        exc = Some (OtherException p)"
      using a(7) by auto
    ultimately show ?thesis by (intro exI[of _ "?new added"] conjI)
  qed
qed

lemma import_all_trace:
  assumes "import_all ns w = (exc, w')"
  shows "environment w' = environment w \<and>
     (\<exists>added. trace w' = trace w @ added \<and> installs added = [] \<and>
        prefix (map fst (import_events added)) ns \<and>
        (exc = None \<longrightarrow> map fst (import_events added) = ns \<and>
           (\<forall>n \<in> set ns. environment w (package_of n) = Imported)))"
  using assms
proof (induction ns arbitrary: w)
  case Nil
  then show ?case by simp
next
  case (Cons n ns)
  show ?case
  proof (cases "environment w (package_of n) = Imported")
    case False
    with Cons.prems have "exc \<noteq> None" "environment w' = environment w"
      "trace w' = trace w @ [Import n (environment w (package_of n))]"
      by (auto simp: import_statement_def then_do_def Let_def split: import_outcome.splits)
    then show ?thesis by auto
  next
    case True
    let ?w1 = "w\<lparr>trace := trace w @ [Import n Imported]\<rparr>"
    from True Cons.prems have run: "import_all ns ?w1 = (exc, w')"
      by (simp add: import_statement_def then_do_def Let_def)
    from Cons.IH[OF run] obtain added where a: "environment w' = environment ?w1"
      "trace w' = trace ?w1 @ added" "installs added = []" "prefix (map fst (import_events added)) ns"
      "exc = None \<longrightarrow> map fst (import_events added) = ns \<and>
           (\<forall>n \<in> set ns. environment ?w1 (package_of n) = Imported)"
      by blast
    have "trace w' = trace w @ (Import n Imported # added)" using a(2) by simp
    moreover have "installs (Import n Imported # added) = []" using a(3) by simp
    moreover have "prefix (map fst (import_events (Import n Imported # added))) (n # ns)"
      using a(4) by simp
    moreover have "exc = None \<longrightarrow> map fst (import_events (Import n Imported # added)) = n # ns \<and>
           (\<forall>m \<in> set (n # ns). environment w (package_of m) = Imported)"
      using a(5) True by simp
    ultimately show ?thesis using a(1) by auto
  qed
qed

lemma install_missing_Cons: "install_missing pip (p # ps) = then_do (try_import_except_install pip p) (install_missing pip ps)"
  by (rule ext) simp

lemma install_missing_Nil: "install_missing pip [] = (\<lambda>w. (None, w))"
  by (rule ext) simp

lemma import_all_Cons: "import_all (n # ns) = then_do (import_statement n) (import_all ns)"
  by (rule ext) simp

lemma import_all_Nil: "import_all [] = (\<lambda>w. (None, w))"
  by (rule ext) simp

lemma plot_per_arbor_result_phases:
  "plot_per_arbor_result pip =
     then_do (install_missing pip [''numpy'', ''matplotlib'', ''seaborn''])
       (import_all [''numpy'', ''seaborn'', ''matplotlib.pyplot'', ''matplotlib''])"
  by (simp only: plot_per_arbor_result_def install_missing_Cons install_missing_Nil
      import_all_Cons import_all_Nil then_do_assoc then_do_None)

lemma plot_per_arbor_range_phases:
  "plot_per_arbor_range pip =
     then_do (install_missing pip [''numpy'', ''matplotlib'', ''seaborn'', ''pandas''])
       (import_all [''numpy'', ''seaborn'', ''matplotlib'', ''matplotlib''])"
  by (simp only: plot_per_arbor_range_def install_missing_Cons install_missing_Nil
      import_all_Cons import_all_Nil then_do_assoc then_do_None)

lemma phases_handled:
  assumes run: "then_do (install_missing pip ps) (import_all ns) w = (exc, w')"
    and d: "distinct ps" and fresh: "trace w = []"
  shows "dependencies_handled ps ns exc w'"
proof -
  obtain exc1 w1 where g: "install_missing pip ps w = (exc1, w1)" by (cases "install_missing pip ps w")
  from install_missing_trace[OF g d] obtain added where a0: "trace w1 = trace w @ added"
    and a: "distinct (installs added)" "set (installs added) \<subseteq> set ps"
    "exc1 = None \<longrightarrow> map fst (import_events added) = ps"
    "\<forall>p \<in> set ps. (p \<in> set (installs added)) = (map_of (import_events added) p = Some NotFound)"
    "\<forall>p \<in> set ps. map_of (import_events added) p = Some Failed \<longrightarrow> exc1 = Some (OtherException p)"
    by blast
  from a0 fresh have tr1: "trace w1 = added" by simp
  show ?thesis
  proof (cases exc1)
    case (Some e)
    with run g have "exc = Some e" "w' = w1" by (simp_all add: then_do_def)
    then have e: "exc = exc1" "trace w' = added" using Some tr1 by simp_all
    have "(p \<in> set (installs added)) =
        (p \<in> set ps \<and> map_of (import_events added) p = Some NotFound)" for p
      using a(2,4) by blast
    with a(1,5) e Some show ?thesis
      unfolding dependencies_handled_def first_import_def by simp
  next
    case None
    with run g have r: "import_all ns w1 = (exc, w')" by (simp add: then_do_def)
    from import_all_trace[OF r] obtain more where m: "environment w' = environment w1"
      "trace w' = added @ more" "installs more = []"
      "exc = None \<longrightarrow> map fst (import_events more) = ns \<and>
           (\<forall>n \<in> set ns. environment w1 (package_of n) = Imported)"
      using tr1 by auto
    from a(3) None have names: "map fst (import_events added) = ps" by simp
    have first: "map_of (import_events (added @ more)) p = map_of (import_events added) p"
      if "p \<in> set ps" for p
    proof -
      from that have "p \<in> set (map fst (import_events added))" unfolding names .
      then have "p \<in> fst ` set (import_events added)" by simp
      then have "p \<in> dom (map_of (import_events added))" by (simp add: dom_map_of_conv_image_fst)
      then show ?thesis by (simp add: map_add_dom_app_simps)
    qed
    have "distinct (installs (trace w'))" using a(1) m(2,3) by simp
    moreover have "(p \<in> set (installs (trace w'))) =
        (p \<in> set ps \<and> first_import (trace w') p = Some NotFound)" for p
    proof (cases "p \<in> set ps")
      case True
      with a(4) first[of p] m(2,3) show ?thesis unfolding first_import_def by simp
    next
      case False
      with a(2) m(2,3) show ?thesis by auto
    qed
    moreover have "\<forall>p \<in> set ps. first_import (trace w') p = Some Failed \<longrightarrow> exc = Some (OtherException p)"
    proof (intro ballI impI)
      fix p assume p: "p \<in> set ps" "first_import (trace w') p = Some Failed"
      then have "map_of (import_events added) p = Some Failed"
        using first[of p] m(2) unfolding first_import_def by simp
      with a(5) p(1) None show "exc = Some (OtherException p)" by simp
    qed
    moreover have "exc = None \<longrightarrow> map fst (import_events (trace w')) = ps @ ns \<and>
        (\<forall>n \<in> set ns. environment w' (package_of n) = Imported)"
      using m names by simp
    ultimately show ?thesis unfolding dependencies_handled_def by blast
  qed
qed

text \<open>
  C9, as amended.  In both functions every guarded import (numpy, matplotlib, seaborn, and
  pandas in \<open>plot_per_arbor_range\<close>) that raises \<open>ModuleNotFoundError\<close> is followed by exactly
  one call of \<open>pip_wheel\<close> for that package, and a guarded import that raises another
  exception propagates with no installation attempt.  After the guarded imports numpy,
  seaborn and matplotlib are imported again, so the function gets past its imports only if
  these three are found.  pandas is not among the imports that follow.
\<close>

theorem plotting_dependencies_handled:
  "(plot_per_arbor_result pip (fresh_interpreter env) = (exc, w') \<longrightarrow>
      dependencies_handled [''numpy'', ''matplotlib'', ''seaborn'']
        [''numpy'', ''seaborn'', ''matplotlib.pyplot'', ''matplotlib''] exc w') \<and>
   (plot_per_arbor_range pip (fresh_interpreter env) = (exc, w') \<longrightarrow>
      dependencies_handled [''numpy'', ''matplotlib'', ''seaborn'', ''pandas'']
        [''numpy'', ''seaborn'', ''matplotlib'', ''matplotlib''] exc w')"
proof (intro conjI impI)
  assume "plot_per_arbor_result pip (fresh_interpreter env) = (exc, w')"
  then show "dependencies_handled [''numpy'', ''matplotlib'', ''seaborn'']
        [''numpy'', ''seaborn'', ''matplotlib.pyplot'', ''matplotlib''] exc w'"
    unfolding plot_per_arbor_result_phases
    by (rule phases_handled) (simp_all add: fresh_interpreter_def)
next
  assume "plot_per_arbor_range pip (fresh_interpreter env) = (exc, w')"
  then show "dependencies_handled [''numpy'', ''matplotlib'', ''seaborn'', ''pandas'']
        [''numpy'', ''seaborn'', ''matplotlib'', ''matplotlib''] exc w'"
    unfolding plot_per_arbor_range_phases
    by (rule phases_handled) (simp_all add: fresh_interpreter_def)
qed


lemma example_range_run:
  "plot_per_arbor_range pip_wheel_without_effect (fresh_interpreter only_pandas_missing) =
     (None, \<lparr>environment = only_pandas_missing,
             trace = [Import ''numpy'' Imported, Import ''matplotlib'' Imported,
                      Import ''seaborn'' Imported, Import ''pandas'' NotFound, PipWheel ''pandas'',
                      Import ''numpy'' Imported, Import ''seaborn'' Imported,
                      Import ''matplotlib'' Imported, Import ''matplotlib'' Imported]\<rparr>)"
  by (simp add: plot_per_arbor_range_def then_do_def try_import_cases import_statement_def
      fresh_interpreter_def only_pandas_missing_def pip_wheel_without_effect_def package_of_def)

lemma example_result_run:
  "plot_per_arbor_result pip_wheel_without_effect (fresh_interpreter seaborn_broken) =
     (Some (OtherException ''seaborn''),
      \<lparr>environment = seaborn_broken,
       trace = [Import ''numpy'' Imported, Import ''matplotlib'' Imported,
                Import ''seaborn'' Failed]\<rparr>)"
  by (simp add: plot_per_arbor_result_def then_do_def try_import_cases import_statement_def
      fresh_interpreter_def seaborn_broken_def pip_wheel_without_effect_def package_of_def)

theorem plotting_dependencies_handled_witness:
  "plot_per_arbor_range pip_wheel_without_effect (fresh_interpreter only_pandas_missing) =
     (None, \<lparr>environment = only_pandas_missing,
             trace = [Import ''numpy'' Imported, Import ''matplotlib'' Imported,
                      Import ''seaborn'' Imported, Import ''pandas'' NotFound, PipWheel ''pandas'',
                      Import ''numpy'' Imported, Import ''seaborn'' Imported,
                      Import ''matplotlib'' Imported, Import ''matplotlib'' Imported]\<rparr>) \<and>
   dependencies_handled [''numpy'', ''matplotlib'', ''seaborn'', ''pandas'']
     [''numpy'', ''seaborn'', ''matplotlib'', ''matplotlib''] None
     \<lparr>environment = only_pandas_missing,
      trace = [Import ''numpy'' Imported, Import ''matplotlib'' Imported,
               Import ''seaborn'' Imported, Import ''pandas'' NotFound, PipWheel ''pandas'',
               Import ''numpy'' Imported, Import ''seaborn'' Imported,
               Import ''matplotlib'' Imported, Import ''matplotlib'' Imported]\<rparr> \<and>
   plot_per_arbor_result pip_wheel_without_effect (fresh_interpreter seaborn_broken) =
     (Some (OtherException ''seaborn''),
      \<lparr>environment = seaborn_broken,
       trace = [Import ''numpy'' Imported, Import ''matplotlib'' Imported,
                Import ''seaborn'' Failed]\<rparr>) \<and>
   dependencies_handled [''numpy'', ''matplotlib'', ''seaborn'']
     [''numpy'', ''seaborn'', ''matplotlib.pyplot'', ''matplotlib'']
     (Some (OtherException ''seaborn''))
     \<lparr>environment = seaborn_broken,
      trace = [Import ''numpy'' Imported, Import ''matplotlib'' Imported,
               Import ''seaborn'' Failed]\<rparr>"
  using plotting_dependencies_handled [of pip_wheel_without_effect only_pandas_missing None
      "\<lparr>environment = only_pandas_missing,
        trace = [Import ''numpy'' Imported, Import ''matplotlib'' Imported,
                 Import ''seaborn'' Imported, Import ''pandas'' NotFound, PipWheel ''pandas'',
                 Import ''numpy'' Imported, Import ''seaborn'' Imported,
                 Import ''matplotlib'' Imported, Import ''matplotlib'' Imported]\<rparr>"]
    plotting_dependencies_handled [of pip_wheel_without_effect seaborn_broken
      "Some (OtherException ''seaborn'')"
      "\<lparr>environment = seaborn_broken,
        trace = [Import ''numpy'' Imported, Import ''matplotlib'' Imported,
                 Import ''seaborn'' Failed]\<rparr>"]
    example_range_run example_result_run
  by blast

text \<open>
  C9, as stated, fails for pandas: with only pandas missing and an installation attempt that
  achieves nothing, \<open>plot_per_arbor_range\<close> attempts the installation once, does not import
  pandas again and gets past its imports without raising, pandas still missing.
\<close>

theorem pandas_import_not_retried:
  "only_pandas_missing ''pandas'' = NotFound \<and>
   fst (plot_per_arbor_range pip_wheel_without_effect (fresh_interpreter only_pandas_missing)) = None \<and>
   environment (snd (plot_per_arbor_range pip_wheel_without_effect
      (fresh_interpreter only_pandas_missing))) ''pandas'' = NotFound \<and>
   trace (snd (plot_per_arbor_range pip_wheel_without_effect
      (fresh_interpreter only_pandas_missing))) =
     [Import ''numpy'' Imported, Import ''matplotlib'' Imported,
      Import ''seaborn'' Imported, Import ''pandas'' NotFound, PipWheel ''pandas'',
      Import ''numpy'' Imported, Import ''seaborn'' Imported,
      Import ''matplotlib'' Imported, Import ''matplotlib'' Imported]"
  by (simp add: example_range_run only_pandas_missing_def)

section \<open>Properties of the vasculature loader\<close>

text \<open>
  C10.  When the file opens in mode \<open>'r'\<close>, the constructor returns a loader exactly when
  the file has the datasets \<open>points\<close>, \<open>edges\<close>, \<open>chains/structure\<close> and
  \<open>chains/connectivity\<close>, and the four lists of the loader are these datasets.  When the file
  does not open, the constructor raises what the opening raised.  The constructor opens
  the file in mode \<open>'r'\<close> and in no other way.
\<close>

theorem VasculatureLoader_loads_datasets:
  "(h5py_File path ''r'' = Inr file \<longrightarrow>
      (VasculatureLoader h5py_File path = Inr loader) =
      (\<exists>chains. item file ''points'' = Inr (Dataset (points_list loader)) \<and>
         item file ''edges'' = Inr (Dataset (segments_list loader)) \<and>
         item file ''chains'' = Inr chains \<and>
         item chains ''structure'' = Inr (Dataset (sections_list loader)) \<and>
         item chains ''connectivity'' = Inr (Dataset (connections_list loader)) \<and>
         dataset loader = path \<and> vasculature_loader.more loader = ())) \<and>
   (h5py_File path ''r'' = Inl e \<longrightarrow> VasculatureLoader h5py_File path = Inl e) \<and>
   (h5py_File path ''r'' = other_File path ''r'' \<longrightarrow>
      VasculatureLoader h5py_File path = VasculatureLoader other_File path)"
proof (intro conjI impI)
  assume "h5py_File path ''r'' = Inr file"
  then show "(VasculatureLoader h5py_File path = Inr loader) =
      (\<exists>chains. item file ''points'' = Inr (Dataset (points_list loader)) \<and>
         item file ''edges'' = Inr (Dataset (segments_list loader)) \<and>
         item file ''chains'' = Inr chains \<and>
         item chains ''structure'' = Inr (Dataset (sections_list loader)) \<and>
         item chains ''connectivity'' = Inr (Dataset (connections_list loader)) \<and>
         dataset loader = path \<and> vasculature_loader.more loader = ())"
    by (cases loader)
      (auto simp: VasculatureLoader_def load_dataset_from_file_def and_then_def dataset_value_def
        split: sum.splits h5.splits)
next
  assume "h5py_File path ''r'' = Inl e"
  then show "VasculatureLoader h5py_File path = Inl e"
    by (simp add: VasculatureLoader_def load_dataset_from_file_def and_then_def)
next
  assume "h5py_File path ''r'' = other_File path ''r''"
  then show "VasculatureLoader h5py_File path = VasculatureLoader other_File path"
    by (simp add: VasculatureLoader_def load_dataset_from_file_def)
qed


theorem VasculatureLoader_loads_datasets_witness:
  "example_open ''vessels.h5'' ''r'' = Inr example_file \<and>
   VasculatureLoader example_open ''vessels.h5'' =
     Inr \<lparr>dataset = ''vessels.h5'', points_list = [1, 2, 3], segments_list = [4, 5],
          sections_list = [6], connections_list = [7, 8]\<rparr> \<and>
   example_open ''missing.h5'' ''r'' = Inl OSError \<and>
   VasculatureLoader example_open ''missing.h5'' = Inl OSError \<and>
   example_open ''vessels.h5'' ''r'' = example_open_any_mode ''vessels.h5'' ''r'' \<and>
   VasculatureLoader example_open ''vessels.h5'' =
     VasculatureLoader example_open_any_mode ''vessels.h5''"
proof -
  let ?loader = "\<lparr>dataset = ''vessels.h5'', points_list = [1, 2, 3], segments_list = [4, 5],
          sections_list = [6], connections_list = [7, 8 :: nat]\<rparr>"
  have opened: "example_open ''vessels.h5'' ''r'' = Inr example_file"
    and missing: "example_open ''missing.h5'' ''r'' = Inl OSError"
    by (simp_all add: example_open_def)
  have members: "item example_file ''points'' = Inr (Dataset (points_list ?loader))"
    "item example_file ''edges'' = Inr (Dataset (segments_list ?loader))"
    "item example_file ''chains'' =
       Inr (Group [(''structure'', Dataset [6]), (''connectivity'', Dataset [7, 8])])"
    "item (Group [(''structure'', Dataset [6]), (''connectivity'', Dataset [7, 8])]) ''structure'' =
       Inr (Dataset (sections_list ?loader))"
    "item (Group [(''structure'', Dataset [6]), (''connectivity'', Dataset [7, 8])]) ''connectivity'' =
       Inr (Dataset (connections_list ?loader))"
    by (simp_all add: example_file_def item_def)
  from VasculatureLoader_loads_datasets
      [of example_open "''vessels.h5''" example_file ?loader OSError example_open] opened members
  have "VasculatureLoader example_open ''vessels.h5'' = Inr ?loader"
    by simp
  moreover from VasculatureLoader_loads_datasets
      [of example_open "''missing.h5''" example_file ?loader OSError example_open] missing
  have "VasculatureLoader example_open ''missing.h5'' = Inl OSError"
    by blast
  moreover have same: "example_open ''vessels.h5'' ''r'' = example_open_any_mode ''vessels.h5'' ''r''"
    by (simp add: example_open_def example_open_any_mode_def)
  moreover from VasculatureLoader_loads_datasets
      [of example_open "''vessels.h5''" example_file ?loader OSError example_open_any_mode] same
  have "VasculatureLoader example_open ''vessels.h5'' =
      VasculatureLoader example_open_any_mode ''vessels.h5''"
    by blast
  ultimately show ?thesis using opened missing by simp
qed

end
